theory Spec2Isabelle
  imports Main
begin

section \<open>The values geocat.comp handles\<close>

text \<open>
  The package \<open>geocat.comp\<close> is one module, \<open>src/geocat/comp/__init__.py\<close>, with one
  function, \<open>linint2\<close>. The function does no arithmetic: it resolves three defaults,
  computes the chunk layout of the output, hands the blocks of the input to the native
  routine \<open>_ncomp._linint2\<close> through dask's \<open>map_blocks\<close> (which joins them along the
  two axes it drops), computes the result and wraps it in an \<open>xarray.DataArray\<close>. The native routine and the table \<open>_ncomp.dtype_default_fill\<close>
  are compiled code outside the module; they are parameters \<open>K\<close> and \<open>D\<close> of the model.

  Exceptions are values of \<open>error\<close>; a call returns \<open>error + result\<close>.
\<close>

datatype error =
  AttributeError | KeyError | IndexError | TypeError | ValueError | ImportError

type_synonym dtype = string

text \<open>A \<open>numpy.ndarray\<close>: its shape, its elements in row-major order, its dtype.\<close>

record 'a ndarray =
  shape :: "nat list"
  flat :: "'a list"
  dtype :: dtype

text \<open>
  A dask array is a grid of blocks, nested one list level per axis (the nesting dask's
  \<open>concatenate3\<close> takes), with the chunk sizes it declares for every axis.
\<close>

datatype 'b grid = Blk 'b | Grid "'b grid list"

record 'b darray =
  chunks :: "nat list list"
  blocks :: "'b grid"
  dask_dtype :: dtype

datatype 'a array_data = Numpy "'a ndarray" | Dask "('a ndarray) darray"

text \<open>A coordinate of a DataArray: an xarray \<open>Variable\<close>, its dimension names and its array.\<close>

record 'a variable =
  vdims :: "string list"
  vvalues :: "'a ndarray"

record 'a dataarray =
  data :: "'a array_data"
  dims :: "string list"
  coords :: "(string \<times> 'a variable) list"
  attrs :: "(string \<times> string) list"

text \<open>The argument \<open>fi\<close> of \<open>linint2\<close>: the docstring allows both kinds.\<close>

datatype 'a pyarray = NdArray "'a ndarray" | DataArray "'a dataarray"

type_synonym 'a kernel =
  "'a ndarray \<Rightarrow> 'a ndarray \<Rightarrow> 'a ndarray \<Rightarrow> 'a ndarray \<Rightarrow> 'a ndarray \<Rightarrow> bool \<Rightarrow> 'a
    \<Rightarrow> error + 'a ndarray"

section \<open>Python and numpy operations\<close>

text \<open>\<open>xs[-k]\<close> for \<open>k = 1, 2\<close>: IndexError when the sequence is shorter than \<open>k\<close>.\<close>

definition getitem_neg :: "'b list \<Rightarrow> nat \<Rightarrow> error + 'b" where
  "getitem_neg xs k =
     (if 0 < k \<and> k \<le> length xs then Inr (xs ! (length xs - k)) else Inl IndexError)"

text \<open>\<open>xs[-2:]\<close>: the last two elements, or all of them when there are fewer.\<close>

definition last2 :: "'b list \<Rightarrow> 'b list" where
  "last2 xs = drop (length xs - 2) xs"

text \<open>
  \<open>xs[-2:] = (a, b)\<close> on a list: the slice \<open>xs[-2:]\<close> is replaced by the two elements,
  so a list shorter than two ends with length two.
\<close>

definition set_last2 :: "'b list \<Rightarrow> 'b \<Rightarrow> 'b \<Rightarrow> 'b list" where
  "set_last2 xs a b = take (length xs - 2) xs @ [a, b]"

text \<open>Running a list of fallible steps in order: the first exception wins.\<close>

fun collect :: "(error + 'b) list \<Rightarrow> error + 'b list" where
  "collect [] = Inr []"
| "collect (x # xs) =
     (case x of Inl e \<Rightarrow> Inl e
      | Inr v \<Rightarrow> (case collect xs of Inl e \<Rightarrow> Inl e | Inr vs \<Rightarrow> Inr (v # vs)))"

text \<open>
  \<open>numpy.concatenate(as, axis=ax)\<close>: ValueError on an empty list, on an axis out of range
  and on arrays whose shapes differ off the axis. The result keeps the first array's
  dtype (the arrays concatenated here are blocks of one array).
\<close>

definition same_off_axis :: "nat \<Rightarrow> 'a ndarray \<Rightarrow> 'a ndarray \<Rightarrow> bool" where
  "same_off_axis ax a b = (ax < length (shape b) \<and> (shape b)[ax := 0] = (shape a)[ax := 0])"

definition np_concatenate :: "nat \<Rightarrow> 'a ndarray list \<Rightarrow> error + 'a ndarray" where
  "np_concatenate ax as =
     (case as of [] \<Rightarrow> Inl ValueError
      | a # rest \<Rightarrow>
          if list_all (same_off_axis ax a) as then
            Inr \<lparr>shape = (shape a)[ax := sum_list (map (\<lambda>b. shape b ! ax) as)],
                 flat = concat (map (\<lambda>outer. concat (map (\<lambda>b.
                          take (prod_list (drop ax (shape b)))
                            (drop (outer * prod_list (drop ax (shape b))) (flat b))) as))
                        [0 ..< prod_list (take ax (shape a))]),
                 dtype = dtype a\<rparr>
          else Inl ValueError)"

text \<open>\<open>numpy.arange(n)\<close>, the values of a dimension that has no coordinate of its own.\<close>

definition arange :: "nat \<Rightarrow> 'a::semiring_1 ndarray" where
  "arange n = \<lparr>shape = [n], flat = map of_nat [0 ..< n], dtype = ''int64''\<rparr>"

section \<open>dask operations\<close>

text \<open>
  \<open>_concatenate2\<close>: the blocks of a nested grid joined by \<open>numpy.concatenate\<close>, the
  outermost list level along axis \<open>ax\<close>, the next along \<open>ax + 1\<close>, and so on.
\<close>

fun concatenate2 :: "nat \<Rightarrow> 'a ndarray grid \<Rightarrow> error + 'a ndarray" where
  "concatenate2 ax (Blk b) = Inr b"
| "concatenate2 ax (Grid gs) =
     (case collect (map (concatenate2 (Suc ax)) gs) of
        Inl e \<Rightarrow> Inl e
      | Inr as \<Rightarrow> np_concatenate ax as)"

text \<open>
  numpy's \<open>result[idx] = arr\<close> for a slot \<open>result[idx]\<close> of shape \<open>shp\<close>: \<open>arr\<close> is
  broadcast to the slot. Axes of size 1 that \<open>arr\<close> has in front, beyond the axes of
  the slot, are stripped. Then, with the shapes aligned at the right, every size of
  \<open>arr\<close> must be the slot's or 1, and along an axis of size 1 the array is repeated;
  anything else is a ValueError. \<open>bc_flat\<close> takes the shape of the slot, the shape
  of \<open>arr\<close> filled up with 1 in front, and the elements of \<open>arr\<close>.
\<close>

fun strip_lead :: "nat \<Rightarrow> nat list \<Rightarrow> nat list" where
  "strip_lead n [] = []"
| "strip_lead n (x # s) = (if n < Suc (length s) \<and> x = 1 then strip_lead n s else x # s)"

fun bc_flat :: "nat list \<Rightarrow> nat list \<Rightarrow> 'a list \<Rightarrow> 'a list" where
  "bc_flat (t # ts) (s # ss) xs =
     (if s = t
      then concat (map (\<lambda>i. bc_flat ts ss (take (prod_list ss) (drop (i * prod_list ss) xs)))
                     [0 ..< t])
      else concat (replicate t (bc_flat ts ss xs)))"
| "bc_flat ts ss xs = xs"

definition broadcast_into :: "nat list \<Rightarrow> 'a ndarray \<Rightarrow> error + 'a ndarray" where
  "broadcast_into shp a =
     (let s = strip_lead (length shp) (shape a) in
      if length s \<le> length shp \<and>
         list_all2 (\<lambda>v t. v = t \<or> v = 1) s (drop (length shp - length s) shp)
      then Inr \<lparr>shape = shp,
                flat = bc_flat shp (replicate (length shp - length s) 1 @ s) (flat a),
                dtype = dtype a\<rparr>
      else Inl ValueError)"

text \<open>
  \<open>concatenate3\<close>, which puts the blocks of a nested grid together. The chunk sizes
  along every axis are read off the shapes of the first blocks: \<open>chunks_from_arrays\<close>
  takes, at every list level, the size along the level's axis of the first block
  under each entry, and goes on in the first entry (an array of no axis counts as of
  shape \<open>(1,)\<close>; a block with too few axes is an IndexError). An array of the sums
  of the chunk sizes is made, and every block is assigned to its slot, as
  \<open>broadcast_into\<close> has it. The slots with their blocks then make up the array as
  \<open>concatenate2\<close> joins them. The grids of dask arrays are regular: every list of a
  level has the same length. A bare array is returned as it is, and the empty list
  gives \<open>numpy.empty(0)\<close>.
\<close>

fun deepfirst :: "'b grid \<Rightarrow> 'b option" where
  "deepfirst (Blk b) = Some b"
| "deepfirst (Grid []) = None"
| "deepfirst (Grid (g # gs)) = deepfirst g"

definition chunk_size :: "nat \<Rightarrow> 'a ndarray grid \<Rightarrow> error + nat" where
  "chunk_size dim g =
     (case deepfirst g of
        None \<Rightarrow> Inl IndexError
      | Some b \<Rightarrow>
          (let s = (if shape b = [] then [1] else shape b)
           in if dim < length s then Inr (s ! dim) else Inl IndexError))"

fun chunks_from_arrays :: "nat \<Rightarrow> 'a ndarray grid \<Rightarrow> error + nat list list" where
  "chunks_from_arrays dim (Blk b) = Inr []"
| "chunks_from_arrays dim (Grid []) = Inl IndexError"
| "chunks_from_arrays dim (Grid (g # gs)) =
     (case collect (map (chunk_size dim) (g # gs)) of
        Inl e \<Rightarrow> Inl e
      | Inr c \<Rightarrow>
          (case chunks_from_arrays (Suc dim) g of
             Inl e \<Rightarrow> Inl e
           | Inr cs \<Rightarrow> Inr (c # cs)))"

function into_slots :: "nat list \<Rightarrow> nat list list \<Rightarrow> 'a ndarray grid \<Rightarrow> error + 'a ndarray grid" where
  "into_slots pre [] (Blk b) =
     (case broadcast_into pre b of Inl e \<Rightarrow> Inl e | Inr b' \<Rightarrow> Inr (Blk b'))"
| "into_slots pre (c # cs) (Grid gs) =
     (if length gs = length c
      then (case collect (map (\<lambda>(n, g). into_slots (pre @ [n]) cs g) (zip c gs)) of
              Inl e \<Rightarrow> Inl e
            | Inr gs' \<Rightarrow> Inr (Grid gs'))
      else Inl ValueError)"
| "into_slots pre [] (Grid gs) = Inl ValueError"
| "into_slots pre (c # cs) (Blk b) = Inl ValueError"
  by pat_completeness auto

termination
  by (relation "measure (\<lambda>(pre, cs, g). size g)")
    (auto dest!: set_zip_rightD simp: less_Suc_eq_le size_list_estimation')

fun concatenate3 :: "'a ndarray grid \<Rightarrow> error + 'a ndarray" where
  "concatenate3 (Blk b) = Inr b"
| "concatenate3 (Grid []) = Inr \<lparr>shape = [0], flat = [], dtype = ''float64''\<rparr>"
| "concatenate3 (Grid (g # gs)) =
     (case chunks_from_arrays 0 (Grid (g # gs)) of
        Inl e \<Rightarrow> Inl e
      | Inr cs \<Rightarrow>
          (case into_slots [] cs (Grid (g # gs)) of
             Inl e \<Rightarrow> Inl e
           | Inr slots \<Rightarrow> concatenate2 0 slots))"

text \<open>
  \<open>concatenate_axes(arrays, axes)\<close> for the two axes that follow the first \<open>lead\<close>:
  \<open>transposelist\<close> gives the nested list one level of a single entry for each axis
  before them, and the list goes to \<open>concatenate3\<close>.
\<close>

fun transposelist :: "nat \<Rightarrow> 'b grid \<Rightarrow> 'b grid" where
  "transposelist 0 g = g"
| "transposelist (Suc n) g = Grid [transposelist n g]"

definition concatenate_axes :: "nat \<Rightarrow> 'a ndarray grid \<Rightarrow> error + 'a ndarray" where
  "concatenate_axes lead g = concatenate3 (transposelist lead g)"

text \<open>
  \<open>map_blocks(func, ..., fi_data, ..., chunks=fo_chunks, dtype=fi.dtype,
  drop_axis=[ndim-2, ndim-1], new_axis=[ndim-2, ndim-1])\<close>. Arguments that are not dask
  arrays reach \<open>func\<close> whole, so \<open>func\<close> is here the native routine with every argument
  but the block fixed. The leading \<open>ndim - 2\<close> axes keep their blocks. The two dropped
  axes are contracted: the blocks along them are concatenated before \<open>func\<close> sees them
  (\<open>blockwise\<close> with \<open>concatenate=True\<close>, which is \<open>concatenate_axes\<close>). The two new
  axes get the blocks that \<open>fo_chunks\<close> declares for them, each the result of the same
  call. Nothing runs yet: the blocks of the result are the outcomes \<open>compute\<close> will
  find. On an array of no axis the axes to drop are out of range, which is a
  ValueError.
\<close>

fun map_lead :: "nat \<Rightarrow> ('b grid \<Rightarrow> 'c grid) \<Rightarrow> 'b grid \<Rightarrow> 'c grid" where
  "map_lead 0 h g = h g"
| "map_lead (Suc n) h (Grid gs) = Grid (map (map_lead n h) gs)"
| "map_lead (Suc n) h (Blk b) = h (Blk b)"

definition new_axes :: "nat \<Rightarrow> nat \<Rightarrow> 'c \<Rightarrow> 'c grid" where
  "new_axes m n t = Grid (replicate m (Grid (replicate n (Blk t))))"

definition map_blocks ::
  "('a ndarray \<Rightarrow> error + 'a ndarray) \<Rightarrow> ('a ndarray) darray \<Rightarrow> nat list list \<Rightarrow> dtype
    \<Rightarrow> error + (error + 'a ndarray) darray" where
  "map_blocks func d fo_chunks dt =
     (if chunks d = [] then Inl ValueError
      else
        (let lead = length (chunks d) - 2 in
         Inr \<lparr>chunks = fo_chunks,
              blocks = map_lead lead
                (\<lambda>g. new_axes (length (fo_chunks ! lead)) (length (fo_chunks ! Suc lead))
                       (case concatenate_axes lead g of Inl e \<Rightarrow> Inl e | Inr b \<Rightarrow> func b))
                (blocks d),
              dask_dtype = dt\<rparr>))"

text \<open>
  \<open>fo.compute()\<close>: every block is computed, and a block that raises makes the call
  raise. The scheduler takes the tasks that are ready from the end of its stack, so
  of several blocks that raise it is the last one in the order of the grid whose
  exception the call raises. Then \<open>finalize\<close> returns the block itself when the grid
  holds a single one and \<open>concatenate3\<close> of the grid otherwise (\<open>numpy.empty(0)\<close> for a
  grid of no blocks).
\<close>

definition collect_last :: "(error + 'b) list \<Rightarrow> error + 'b list" where
  "collect_last xs = (case collect (rev xs) of Inl e \<Rightarrow> Inl e | Inr vs \<Rightarrow> Inr (rev vs))"

fun collect_grid :: "(error + 'b) grid \<Rightarrow> error + 'b grid" where
  "collect_grid (Blk t) = (case t of Inl e \<Rightarrow> Inl e | Inr b \<Rightarrow> Inr (Blk b))"
| "collect_grid (Grid gs) =
     (case collect_last (map collect_grid gs) of
        Inl e \<Rightarrow> Inl e
      | Inr gs' \<Rightarrow> Inr (Grid gs'))"

fun single_block :: "'b grid \<Rightarrow> 'b option" where
  "single_block (Blk b) = Some b"
| "single_block (Grid [g]) = single_block g"
| "single_block (Grid gs) = None"

definition compute :: "(error + 'a ndarray) darray \<Rightarrow> error + 'a ndarray" where
  "compute d =
     (case collect_grid (blocks d) of
        Inl e \<Rightarrow> Inl e
      | Inr g \<Rightarrow>
          if g = Grid [] then Inr \<lparr>shape = [0], flat = [], dtype = ''float64''\<rparr>
          else (case single_block g of Some b \<Rightarrow> Inr b | None \<Rightarrow> concatenate3 g))"

section \<open>xarray operations\<close>

text \<open>\<open>fi.dtype\<close>, \<open>fi.shape\<close>: a dask array's shape is the sum of its chunks on every axis.\<close>

definition data_dtype :: "'a array_data \<Rightarrow> dtype" where
  "data_dtype x = (case x of Numpy a \<Rightarrow> dtype a | Dask d \<Rightarrow> dask_dtype d)"

definition data_shape :: "'a array_data \<Rightarrow> nat list" where
  "data_shape x = (case x of Numpy a \<Rightarrow> shape a | Dask d \<Rightarrow> map sum_list (chunks d))"

definition fi_dtype :: "'a pyarray \<Rightarrow> dtype" where
  "fi_dtype fi = (case fi of NdArray a \<Rightarrow> dtype a | DataArray da \<Rightarrow> data_dtype (data da))"

text \<open>
  \<open>da.coords[k]\<close>: the coordinate named \<open>k\<close>; for a dimension that has no coordinate,
  xarray makes one up from \<open>range(size)\<close>; KeyError for any other name.
\<close>

definition coords_getitem :: "'a::semiring_1 dataarray \<Rightarrow> string \<Rightarrow> error + 'a variable" where
  "coords_getitem da k =
     (case map_of (coords da) k of
        Some v \<Rightarrow> Inr v
      | None \<Rightarrow>
          (case map_of (rev (zip (dims da) (data_shape (data da)))) k of
             Some n \<Rightarrow> Inr \<lparr>vdims = [k], vvalues = arange n\<rparr>
           | None \<Rightarrow> Inl KeyError))"

text \<open>
  The constructor \<open>xarray.DataArray(data, attrs=, dims=, coords=)\<close>. A coordinate is given
  as a DataArray (its variable is taken) or as a bare array, which must be one-dimensional
  and lies along the dimension of its own name. ValueError when the number of names
  differs from the number of axes, when a coordinate lies along a dimension the array
  does not have, and when a size disagrees. (A variable has one name per axis of its
  array; xarray builds no other, and \<open>coord_fits\<close> asks for it.)
\<close>

datatype 'a coord_arg = CoordVar "'a variable" | CoordArr "'a ndarray"

definition as_variable :: "string \<Rightarrow> 'a coord_arg \<Rightarrow> error + (string \<times> 'a variable)" where
  "as_variable k c =
     (case c of
        CoordVar v \<Rightarrow> Inr (k, v)
      | CoordArr a \<Rightarrow>
          if length (shape a) = 1 then Inr (k, \<lparr>vdims = [k], vvalues = a\<rparr>)
          else Inl ValueError)"

definition coord_fits :: "string list \<Rightarrow> nat list \<Rightarrow> string \<times> 'a variable \<Rightarrow> bool" where
  "coord_fits ds shp kv =
     (length (vdims (snd kv)) = length (shape (vvalues (snd kv))) \<and>
      list_all (\<lambda>(d, s). map_of (rev (zip ds shp)) d = Some s)
        (zip (vdims (snd kv)) (shape (vvalues (snd kv)))) \<and>
      (if fst kv \<in> set ds
       then map (\<lambda>s. Some s) (shape (vvalues (snd kv))) = [map_of (rev (zip ds shp)) (fst kv)]
       else True))"

definition xr_DataArray ::
  "'a ndarray \<Rightarrow> (string \<times> string) list \<Rightarrow> string list \<Rightarrow> (string \<times> 'a coord_arg) list
    \<Rightarrow> error + 'a dataarray" where
  "xr_DataArray a at ds cs =
     (if length ds \<noteq> length (shape a) then Inl ValueError
      else
        (case collect (map (\<lambda>(k, c). as_variable k c) cs) of
           Inl e \<Rightarrow> Inl e
         | Inr vs \<Rightarrow>
             if list_all (coord_fits ds (shape a)) vs
             then Inr \<lparr>data = Numpy a, dims = ds, coords = vs, attrs = at\<rparr>
             else Inl ValueError))"

text \<open>
  \<open>xarray.DataArray(data)\<close>: the dimensions get the default names \<open>dim_0\<close>, \<open>dim_1\<close>, ...;
  there are no coordinates and no attributes.
\<close>

fun digits :: "nat \<Rightarrow> string" where
  "digits n = (if n < 10 then [char_of (48 + n)] else digits (n div 10) @ [char_of (48 + n mod 10)])"

definition xr_DataArray_default :: "'a ndarray \<Rightarrow> 'a dataarray" where
  "xr_DataArray_default a =
     \<lparr>data = Numpy a, dims = map (\<lambda>n. ''dim_'' @ digits n) [0 ..< length (shape a)],
      coords = [], attrs = []\<rparr>"

section \<open>The function linint2\<close>

text \<open>
  Lines 129-130: \<open>if xmsg is None: xmsg = _ncomp.dtype_default_fill[fi.dtype]\<close>.
\<close>

definition default_xmsg :: "(dtype \<rightharpoonup> 'a) \<Rightarrow> 'a pyarray \<Rightarrow> 'a option \<Rightarrow> error + 'a" where
  "default_xmsg D fi xmsg =
     (case xmsg of
        Some m \<Rightarrow> Inr m
      | None \<Rightarrow> (case D (fi_dtype fi) of Some m \<Rightarrow> Inr m | None \<Rightarrow> Inl KeyError))"

text \<open>
  Lines 132-135: \<open>if xi is None: xi = fi.coords[fi.dims[-1]].values\<close>, and the same for
  \<open>yi\<close> with \<open>fi.dims[-2]\<close>. A numpy array has no attribute \<open>coords\<close>.
\<close>

definition default_coord ::
  "'a::semiring_1 pyarray \<Rightarrow> nat \<Rightarrow> 'a ndarray option \<Rightarrow> error + 'a ndarray" where
  "default_coord fi k x =
     (case x of
        Some a \<Rightarrow> Inr a
      | None \<Rightarrow>
          (case fi of
             NdArray a \<Rightarrow> Inl AttributeError
           | DataArray da \<Rightarrow>
               (case getitem_neg (dims da) k of
                  Inl e \<Rightarrow> Inl e
                | Inr d \<Rightarrow>
                    (case coords_getitem da d of
                       Inl e \<Rightarrow> Inl e
                     | Inr v \<Rightarrow> Inr (vvalues v)))))"

text \<open>
  Line 144, the dictionary comprehension: every coordinate of \<open>fi\<close> keeps its name; one
  named as one of the last two dimensions is replaced, by \<open>xo\<close> for the last dimension
  and by \<open>yo\<close> otherwise.
\<close>

definition new_coords ::
  "'a dataarray \<Rightarrow> 'a ndarray \<Rightarrow> 'a ndarray \<Rightarrow> (string \<times> 'a coord_arg) list" where
  "new_coords da xo yo =
     map (\<lambda>(k, v). (k, if k \<notin> set (last2 (dims da)) then CoordVar v
                        else if k = last (dims da) then CoordArr xo else CoordArr yo))
       (coords da)"

text \<open>
  Lines 136-139: the chunks declared for the output are a copy of \<open>fi.chunks\<close> whose
  last two entries are replaced by \<open>yo.shape\<close> and \<open>xo.shape\<close>, and \<open>fo\<close> is what
  \<open>map_blocks\<close> makes of the native routine, the input and these chunks.
\<close>

definition linint2_fo ::
  "'a kernel \<Rightarrow> ('a ndarray) darray \<Rightarrow> 'a ndarray \<Rightarrow> 'a ndarray \<Rightarrow> 'a ndarray \<Rightarrow> 'a ndarray
    \<Rightarrow> bool \<Rightarrow> 'a \<Rightarrow> dtype \<Rightarrow> error + (error + 'a ndarray) darray" where
  "linint2_fo K fi_data xi yi xo yo icycx xmsg dt =
     (let fo_chunks = set_last2 (chunks fi_data) (shape yo) (shape xo)
      in map_blocks (\<lambda>b. K xi yi b xo yo icycx xmsg) fi_data fo_chunks dt)"

text \<open>
  The body of \<open>linint2\<close>, lines 129-149. After the defaults, \<open>fi.chunks\<close> is an
  AttributeError on a numpy array and \<open>None\<close> on a DataArray that is not chunked, where
  \<open>list(None)\<close> is a TypeError.
\<close>

definition linint2 ::
  "'a::semiring_1 kernel \<Rightarrow> (dtype \<rightharpoonup> 'a) \<Rightarrow> 'a pyarray \<Rightarrow> 'a ndarray \<Rightarrow> 'a ndarray \<Rightarrow> bool
    \<Rightarrow> 'a option \<Rightarrow> bool \<Rightarrow> 'a ndarray option \<Rightarrow> 'a ndarray option \<Rightarrow> error + 'a dataarray" where
  "linint2 K D fi xo yo icycx xmsg meta xi yi =
     (case default_xmsg D fi xmsg of Inl e \<Rightarrow> Inl e | Inr xmsg' \<Rightarrow>
     (case default_coord fi 1 xi of Inl e \<Rightarrow> Inl e | Inr xi' \<Rightarrow>
     (case default_coord fi 2 yi of Inl e \<Rightarrow> Inl e | Inr yi' \<Rightarrow>
     (case fi of
        NdArray a \<Rightarrow> Inl AttributeError
      | DataArray da \<Rightarrow>
          (case data da of
             Numpy a \<Rightarrow> Inl TypeError
           | Dask fi_data \<Rightarrow>
               (case linint2_fo K fi_data xi' yi' xo yo icycx xmsg' (fi_dtype fi) of
                  Inl e \<Rightarrow> Inl e
                | Inr fo \<Rightarrow>
                    (case compute fo of
                       Inl e \<Rightarrow> Inl e
                     | Inr result \<Rightarrow>
                         if meta
                         then xr_DataArray result (attrs da) (dims da) (new_coords da xo yo)
                         else Inr (xr_DataArray_default result))))))))"

section \<open>The names the package binds\<close>

text \<open>
  \<open>from geocat.comp import name\<close> runs \<open>__init__.py\<close> and succeeds when the module has
  bound \<open>name\<close> or the package has a submodule \<open>name\<close>; otherwise it is an ImportError.
  The module binds the names every package module has from the import system, the
  names of its four imports (lines 1-4) and of its one \<open>def\<close> (line 6); the only
  submodule it knows is the native library of line 1.
\<close>

definition module_dunders :: "string list" where
  "module_dunders =
     [''__name__'', ''__doc__'', ''__package__'', ''__loader__'', ''__spec__'', ''__path__'',
      ''__file__'', ''__cached__'', ''__builtins__'']"

definition comp_namespace :: "string list" where
  "comp_namespace = module_dunders @ [''_ncomp'', ''np'', ''xr'', ''map_blocks'', ''linint2'']"

definition comp_submodules :: "string list" where
  "comp_submodules = [''_ncomp'']"

definition import_from :: "string \<Rightarrow> error + string" where
  "import_from name =
     (if name \<in> set comp_namespace \<or> name \<in> set comp_submodules then Inr name
      else Inl ImportError)"

section \<open>Well-formed inputs\<close>

text \<open>
  A grid fits a list of chunk sizes when it is nested one level per axis, has one entry
  per chunk on every level, and every block has the sizes of its chunks (after the
  sizes \<open>pre\<close> of the axes above) and as many elements as its shape says.
\<close>

fun grid_fits :: "nat list \<Rightarrow> nat list list \<Rightarrow> 'a ndarray grid \<Rightarrow> bool" where
  "grid_fits pre [] (Blk b) = (shape b = pre \<and> length (flat b) = prod_list pre)"
| "grid_fits pre (c # cs) (Grid gs) =
     (gs \<noteq> [] \<and> list_all2 (\<lambda>n g. grid_fits (pre @ [n]) cs g) c gs)"
| "grid_fits pre cs g = False"

fun grid_all :: "('b \<Rightarrow> bool) \<Rightarrow> 'b grid \<Rightarrow> bool" where
  "grid_all P (Blk b) = P b"
| "grid_all P (Grid gs) = list_all (grid_all P) gs"

text \<open>
  A chunked DataArray as xarray builds it: dask data of at least two axes, one name per
  axis, no name twice, and blocks that fit the chunks. Its last two axes are unsplit
  when each is a single chunk, as in the docstring's example.
\<close>

definition chunked :: "'a dataarray \<Rightarrow> ('a ndarray) darray \<Rightarrow> bool" where
  "chunked da d =
     (data da = Dask d \<and> 2 \<le> length (chunks d) \<and> length (dims da) = length (chunks d) \<and>
      distinct (dims da) \<and> distinct (map fst (coords da)) \<and>
      grid_fits [] (chunks d) (blocks d))"

definition unsplit :: "('a ndarray) darray \<Rightarrow> bool" where
  "unsplit d = list_all (\<lambda>c. length c = 1) (last2 (chunks d))"

text \<open>
  What the docstring promises of the native routine on a block: a result whose shape is
  the block's, with the last two sizes replaced by the lengths of \<open>yo\<close> and \<open>xo\<close>.
\<close>

definition kernel_fits ::
  "('a ndarray \<Rightarrow> error + 'a ndarray) \<Rightarrow> nat \<Rightarrow> nat \<Rightarrow> 'a ndarray \<Rightarrow> bool" where
  "kernel_fits func ny nx b =
     (case func b of
        Inl e \<Rightarrow> False
      | Inr r \<Rightarrow> shape r = take (length (shape b) - 2) (shape b) @ [ny, nx] \<and>
                length (flat r) = prod_list (shape r))"

text \<open>\<open>len(a)\<close> of an array of at least one axis: the size of its first axis.\<close>

definition len :: "'a ndarray \<Rightarrow> nat" where
  "len a = (case shape a of [] \<Rightarrow> 0 | n # ns \<Rightarrow> n)"

text \<open>The shape the docstring gives the result: \<open>fi\<close>'s, ending in the two new lengths.\<close>

definition fo_shape :: "('a ndarray) darray \<Rightarrow> nat \<Rightarrow> nat \<Rightarrow> nat list" where
  "fo_shape d ny nx = map sum_list (take (length (chunks d) - 2) (chunks d)) @ [ny, nx]"

text \<open>
  The coordinates that \<open>linint2\<close> keeps go into the constructor with the new array, so
  they must fit its shape.
\<close>

definition kept_coords_fit :: "'a dataarray \<Rightarrow> nat list \<Rightarrow> bool" where
  "kept_coords_fit da shp =
     list_all (\<lambda>kv. fst kv \<in> set (last2 (dims da)) \<or> coord_fits (dims da) shp kv) (coords da)"

text \<open>
  Putting computed blocks together, as \<open>finalize\<close> does: a block that raised makes it
  raise, a single block is the result as it is, several go to \<open>concatenate3\<close>.
\<close>

definition assemble :: "(error + 'a ndarray) grid \<Rightarrow> error + 'a ndarray" where
  "assemble g =
     (case collect_grid g of
        Inl e \<Rightarrow> Inl e
      | Inr g' \<Rightarrow> (case single_block g' of Some b \<Rightarrow> Inr b | None \<Rightarrow> concatenate3 g'))"

text \<open>
  The blockwise application of a routine to a dask array, in the words of the
  specification: the routine is applied to every chunk, and the results are put
  together in the places of the chunks.
\<close>

definition blockwise ::
  "('a ndarray \<Rightarrow> error + 'a ndarray) \<Rightarrow> ('a ndarray) darray \<Rightarrow> error + 'a ndarray" where
  "blockwise func d = assemble (map_grid func (blocks d))"

text \<open>
  The same on chunks made whole along the last two axes: for every block of the
  leading axes, the chunks of the last two axes are joined into one chunk that spans
  both, and the routine is applied to that.
\<close>

definition whole_last2 :: "('a ndarray) darray \<Rightarrow> (error + 'a ndarray) grid" where
  "whole_last2 d =
     map_lead (length (chunks d) - 2)
       (\<lambda>g. Grid [Grid [Blk (concatenate_axes (length (chunks d) - 2) g)]]) (blocks d)"

definition on_block ::
  "('a ndarray \<Rightarrow> error + 'a ndarray) \<Rightarrow> error + 'a ndarray \<Rightarrow> error + 'a ndarray" where
  "on_block func t = (case t of Inl e \<Rightarrow> Inl e | Inr b \<Rightarrow> func b)"

definition blockwise_whole ::
  "('a ndarray \<Rightarrow> error + 'a ndarray) \<Rightarrow> ('a ndarray) darray \<Rightarrow> error + 'a ndarray" where
  "blockwise_whole func d = assemble (map_grid (on_block func) (whole_last2 d))"

text \<open>The chunks of an array made whole along its last two axes.\<close>

definition whole_chunks :: "nat list list \<Rightarrow> nat list list" where
  "whole_chunks cs = take (length cs - 2) cs @ map (\<lambda>c. [sum_list c]) (last2 cs)"

text \<open>
  A call within the documented contract: a chunked DataArray, one-dimensional \<open>xo\<close>
  and \<open>yo\<close>, defaults that resolve, a native routine that keeps its promise on every
  chunk it is given (a chunk made whole along the last two axes), and, with \<open>meta\<close>,
  kept coordinates that fit the new shape.
\<close>

definition kernel_keeps ::
  "('a ndarray \<Rightarrow> error + 'a ndarray) \<Rightarrow> nat \<Rightarrow> nat \<Rightarrow> error + 'a ndarray \<Rightarrow> bool" where
  "kernel_keeps func ny nx t = (case t of Inl e \<Rightarrow> False | Inr b \<Rightarrow> kernel_fits func ny nx b)"

definition valid_call ::
  "'a::semiring_1 kernel \<Rightarrow> (dtype \<rightharpoonup> 'a) \<Rightarrow> 'a dataarray \<Rightarrow> ('a ndarray) darray \<Rightarrow> 'a ndarray
    \<Rightarrow> 'a ndarray \<Rightarrow> bool \<Rightarrow> 'a option \<Rightarrow> bool \<Rightarrow> 'a ndarray option \<Rightarrow> 'a ndarray option
    \<Rightarrow> bool" where
  "valid_call K D da d xo yo icycx xmsg meta xi yi =
     (chunked da d \<and> length (shape xo) = 1 \<and> length (shape yo) = 1 \<and>
      (case default_xmsg D (DataArray da) xmsg of Inl e \<Rightarrow> False | Inr m \<Rightarrow>
      (case default_coord (DataArray da) 1 xi of Inl e \<Rightarrow> False | Inr xi' \<Rightarrow>
      (case default_coord (DataArray da) 2 yi of Inl e \<Rightarrow> False | Inr yi' \<Rightarrow>
         grid_all (kernel_keeps (\<lambda>b. K xi' yi' b xo yo icycx m) (len yo) (len xo))
           (whole_last2 d)))) \<and>
      (if meta then kept_coords_fit da (fo_shape d (len yo) (len xo)) else True))"

section \<open>The function on a store of objects\<close>

text \<open>
  Python passes references. To say what a call does to the objects it is given, the
  objects live in a store: numpy arrays, DataArrays, lists and dictionaries, each kind
  under its own addresses, with the next free address of each kind. \<open>fi\<close> is a
  reference to a numpy array or to a DataArray; \<open>xo\<close>, \<open>yo\<close>, \<open>xi\<close> and \<open>yi\<close> are
  references to numpy arrays. The native routine is a function of the values it is
  given: what it might write through them is outside this module.
\<close>

datatype fi_ref = NdRef nat | DaRef nat

record 'a heap =
  ndarrays :: "nat \<Rightarrow> 'a ndarray"
  dataarrays :: "nat \<Rightarrow> 'a dataarray"
  pylists :: "nat \<Rightarrow> nat list list"
  pydicts :: "nat \<Rightarrow> (string \<times> 'a coord_arg) list"
  next_ndarray :: nat
  next_dataarray :: nat
  next_pylist :: nat
  next_pydict :: nat

definition deref :: "'a heap \<Rightarrow> fi_ref \<Rightarrow> 'a pyarray" where
  "deref h r = (case r of NdRef p \<Rightarrow> NdArray (ndarrays h p) | DaRef p \<Rightarrow> DataArray (dataarrays h p))"

definition new_ndarray :: "'a heap \<Rightarrow> 'a ndarray \<Rightarrow> nat \<times> 'a heap" where
  "new_ndarray h a =
     (next_ndarray h,
      h\<lparr>ndarrays := (ndarrays h)(next_ndarray h := a), next_ndarray := Suc (next_ndarray h)\<rparr>)"

definition new_dataarray :: "'a heap \<Rightarrow> 'a dataarray \<Rightarrow> nat \<times> 'a heap" where
  "new_dataarray h a =
     (next_dataarray h,
      h\<lparr>dataarrays := (dataarrays h)(next_dataarray h := a),
        next_dataarray := Suc (next_dataarray h)\<rparr>)"

definition new_pylist :: "'a heap \<Rightarrow> nat list list \<Rightarrow> nat \<times> 'a heap" where
  "new_pylist h l =
     (next_pylist h,
      h\<lparr>pylists := (pylists h)(next_pylist h := l), next_pylist := Suc (next_pylist h)\<rparr>)"

definition new_pydict :: "'a heap \<Rightarrow> (string \<times> 'a coord_arg) list \<Rightarrow> nat \<times> 'a heap" where
  "new_pydict h c =
     (next_pydict h,
      h\<lparr>pydicts := (pydicts h)(next_pydict h := c), next_pydict := Suc (next_pydict h)\<rparr>)"

text \<open>The one assignment into an object, line 138: \<open>fo_chunks[-2:] = (yo.shape, xo.shape)\<close>.\<close>

definition assign_last2 :: "'a heap \<Rightarrow> nat \<Rightarrow> nat list \<Rightarrow> nat list \<Rightarrow> 'a heap" where
  "assign_last2 h p a b = h\<lparr>pylists := (pylists h)(p := set_last2 (pylists h p) a b)\<rparr>"

text \<open>
  The body of \<open>linint2\<close> again, statement by statement, on the store. Lines 137-138:
  \<open>list(fi.chunks)\<close> is a new list, and the assignment goes into that list.
\<close>

definition heap_fo_chunks ::
  "'a heap \<Rightarrow> ('a ndarray) darray \<Rightarrow> nat \<Rightarrow> nat \<Rightarrow> nat \<times> 'a heap" where
  "heap_fo_chunks h fi_data xo yo =
     (let (fo_chunks, h1) = new_pylist h (chunks fi_data)
      in (fo_chunks,
          assign_last2 h1 fo_chunks (shape (ndarrays h1 yo)) (shape (ndarrays h1 xo))))"

text \<open>Lines 139-141: \<open>map_blocks\<close> and \<open>compute\<close>, which returns a new array.\<close>

definition heap_compute ::
  "'a kernel \<Rightarrow> 'a heap \<Rightarrow> ('a ndarray) darray \<Rightarrow> nat \<Rightarrow> 'a ndarray \<Rightarrow> 'a ndarray \<Rightarrow> nat \<Rightarrow> nat
    \<Rightarrow> bool \<Rightarrow> 'a \<Rightarrow> dtype \<Rightarrow> (error + nat) \<times> 'a heap" where
  "heap_compute K h fi_data fo_chunks xi yi xo yo icycx xmsg dt =
     (case map_blocks (\<lambda>b. K xi yi b (ndarrays h xo) (ndarrays h yo) icycx xmsg)
             fi_data (pylists h fo_chunks) dt of
        Inl e \<Rightarrow> (Inl e, h)
      | Inr fo \<Rightarrow>
          (case compute fo of
             Inl e \<Rightarrow> (Inl e, h)
           | Inr res \<Rightarrow> (let (result, h') = new_ndarray h res in (Inr result, h'))))"

text \<open>
  Lines 143-149: the comprehension of line 144 makes a new dictionary, the constructor
  a new DataArray.
\<close>

definition heap_wrap ::
  "'a heap \<Rightarrow> 'a dataarray \<Rightarrow> nat \<Rightarrow> nat \<Rightarrow> bool \<Rightarrow> nat \<Rightarrow> (error + nat) \<times> 'a heap" where
  "heap_wrap h da xo yo meta result =
     (if meta
      then
        (let (cs, h1) = new_pydict h (new_coords da (ndarrays h xo) (ndarrays h yo))
         in (case xr_DataArray (ndarrays h1 result) (attrs da) (dims da) (pydicts h1 cs) of
               Inl e \<Rightarrow> (Inl e, h1)
             | Inr out \<Rightarrow> (let (r, h2) = new_dataarray h1 out in (Inr r, h2))))
      else
        (let (r, h1) = new_dataarray h (xr_DataArray_default (ndarrays h result))
         in (Inr r, h1)))"

text \<open>Lines 136-149 together, for a DataArray \<open>da\<close> at \<open>fi\<close> with dask data \<open>fi_data\<close>.\<close>

definition heap_dask ::
  "'a::semiring_1 kernel \<Rightarrow> 'a heap \<Rightarrow> fi_ref \<Rightarrow> 'a dataarray \<Rightarrow> ('a ndarray) darray \<Rightarrow> nat \<Rightarrow> nat
    \<Rightarrow> bool \<Rightarrow> 'a \<Rightarrow> bool \<Rightarrow> 'a ndarray \<Rightarrow> 'a ndarray \<Rightarrow> (error + nat) \<times> 'a heap" where
  "heap_dask K h fi da fi_data xo yo icycx xmsg meta xi yi =
     (let (fo_chunks, h1) = heap_fo_chunks h fi_data xo yo
      in (case heap_compute K h1 fi_data fo_chunks xi yi xo yo icycx xmsg
                 (fi_dtype (deref h1 fi)) of
            (Inl e, h2) \<Rightarrow> (Inl e, h2)
          | (Inr result, h2) \<Rightarrow> heap_wrap h2 da xo yo meta result))"

text \<open>
  The call: lines 129-135 only read, and the numpy array and the unchunked DataArray
  raise before anything is made. It returns the exception or the address of its
  result, and the store.
\<close>

definition linint2_heap ::
  "'a::semiring_1 kernel \<Rightarrow> (dtype \<rightharpoonup> 'a) \<Rightarrow> 'a heap \<Rightarrow> fi_ref \<Rightarrow> nat \<Rightarrow> nat \<Rightarrow> bool
    \<Rightarrow> 'a option \<Rightarrow> bool \<Rightarrow> nat option \<Rightarrow> nat option \<Rightarrow> (error + nat) \<times> 'a heap" where
  "linint2_heap K D h fi xo yo icycx xmsg meta xi yi =
     (case default_xmsg D (deref h fi) xmsg of Inl e \<Rightarrow> (Inl e, h) | Inr xmsg' \<Rightarrow>
     (case default_coord (deref h fi) 1 (map_option (ndarrays h) xi) of
        Inl e \<Rightarrow> (Inl e, h) | Inr xi' \<Rightarrow>
     (case default_coord (deref h fi) 2 (map_option (ndarrays h) yi) of
        Inl e \<Rightarrow> (Inl e, h) | Inr yi' \<Rightarrow>
     (case deref h fi of
        NdArray a \<Rightarrow> (Inl AttributeError, h)
      | DataArray da \<Rightarrow>
          (case data da of
             Numpy a \<Rightarrow> (Inl TypeError, h)
           | Dask fi_data \<Rightarrow> heap_dask K h fi da fi_data xo yo icycx xmsg' meta xi' yi')))))"

text \<open>
  An argument is allocated when its address is in use. A store \<open>h'\<close> keeps a store \<open>h\<close>
  when every object of \<open>h\<close> is in \<open>h'\<close> at its address, as it was. The value of a call
  is the exception, or the DataArray at the address returned.
\<close>

definition allocated :: "'a heap \<Rightarrow> fi_ref \<Rightarrow> bool" where
  "allocated h r = (case r of NdRef p \<Rightarrow> p < next_ndarray h | DaRef p \<Rightarrow> p < next_dataarray h)"

definition args_allocated ::
  "'a heap \<Rightarrow> fi_ref \<Rightarrow> nat \<Rightarrow> nat \<Rightarrow> nat option \<Rightarrow> nat option \<Rightarrow> bool" where
  "args_allocated h fi xo yo xi yi =
     (allocated h fi \<and> xo < next_ndarray h \<and> yo < next_ndarray h \<and>
      (case xi of None \<Rightarrow> True | Some p \<Rightarrow> p < next_ndarray h) \<and>
      (case yi of None \<Rightarrow> True | Some p \<Rightarrow> p < next_ndarray h))"

definition keeps :: "'a heap \<Rightarrow> 'a heap \<Rightarrow> bool" where
  "keeps h h' =
     ((\<forall>p < next_ndarray h. ndarrays h' p = ndarrays h p) \<and>
      (\<forall>p < next_dataarray h. dataarrays h' p = dataarrays h p) \<and>
      (\<forall>p < next_pylist h. pylists h' p = pylists h p) \<and>
      (\<forall>p < next_pydict h. pydicts h' p = pydicts h p) \<and>
      next_ndarray h \<le> next_ndarray h' \<and> next_dataarray h \<le> next_dataarray h' \<and>
      next_pylist h \<le> next_pylist h' \<and> next_pydict h \<le> next_pydict h')"

definition outcome :: "(error + nat) \<times> 'a heap \<Rightarrow> error + 'a dataarray" where
  "outcome c = (case fst c of Inl e \<Rightarrow> Inl e | Inr r \<Rightarrow> Inr (dataarrays (snd c) r))"

section \<open>Concrete calls\<close>

text \<open>
  A DataArray of shape \<open>(2, 2, 3)\<close> over \<open>time\<close>, \<open>lat\<close> and \<open>lon\<close>, in two chunks along
  \<open>time\<close>, interpolated to one latitude and two longitudes. The routine that stands
  for the native one returns an array of the promised shape, filled with one number
  made of everything it was given: the missing value, the sum of the block, the sums
  of \<open>xi\<close> and of \<open>yi\<close> (with different weights) and \<open>icycx\<close>. So the result shows which
  block made which part and which arguments reached the routine.
\<close>

definition ex_kernel :: "int kernel" where
  "ex_kernel xi yi b xo yo icycx xmsg =
     (if length (shape b) < 2 then Inl ValueError
      else Inr \<lparr>shape = take (length (shape b) - 2) (shape b) @ [len yo, len xo],
                flat = replicate
                  (prod_list (take (length (shape b) - 2) (shape b) @ [len yo, len xo]))
                  (xmsg + sum_list (flat b) + 1000 * sum_list (flat xi)
                     + 10000 * sum_list (flat yi) + (if icycx then 500 else 0)),
                dtype = dtype b\<rparr>)"

definition ex_fill :: "dtype \<rightharpoonup> int" where
  "ex_fill = [''float64'' \<mapsto> - 99]"

definition ex_block0 :: "int ndarray" where
  "ex_block0 = \<lparr>shape = [1, 2, 3], flat = [1, 2, 3, 4, 5, 6], dtype = ''float64''\<rparr>"

definition ex_block1 :: "int ndarray" where
  "ex_block1 = \<lparr>shape = [1, 2, 3], flat = [7, 8, 9, 10, 11, 12], dtype = ''float64''\<rparr>"

definition ex_data :: "(int ndarray) darray" where
  "ex_data =
     \<lparr>chunks = [[1, 1], [2], [3]],
      blocks = Grid [Grid [Grid [Blk ex_block0]], Grid [Grid [Blk ex_block1]]],
      dask_dtype = ''float64''\<rparr>"

definition ex_time :: "int variable" where
  "ex_time = \<lparr>vdims = [''time''],
              vvalues = \<lparr>shape = [2], flat = [100, 200], dtype = ''float64''\<rparr>\<rparr>"

definition ex_lat :: "int ndarray" where
  "ex_lat = \<lparr>shape = [2], flat = [10, 20], dtype = ''float64''\<rparr>"

definition ex_lon :: "int ndarray" where
  "ex_lon = \<lparr>shape = [3], flat = [0, 1, 2], dtype = ''float64''\<rparr>"

definition ex_fi :: "int dataarray" where
  "ex_fi =
     \<lparr>data = Dask ex_data,
      dims = [''time'', ''lat'', ''lon''],
      coords = [(''time'', ex_time),
                (''lat'', \<lparr>vdims = [''lat''], vvalues = ex_lat\<rparr>),
                (''lon'', \<lparr>vdims = [''lon''], vvalues = ex_lon\<rparr>)],
      attrs = [(''units'', ''K'')]\<rparr>"

definition ex_xo :: "int ndarray" where
  "ex_xo = \<lparr>shape = [2], flat = [0, 2], dtype = ''float64''\<rparr>"

definition ex_yo :: "int ndarray" where
  "ex_yo = \<lparr>shape = [1], flat = [15], dtype = ''float64''\<rparr>"

text \<open>\<open>- 99 + 21 + 3000 + 300000\<close> for the first block, \<open>- 99 + 57 + 3000 + 300000\<close> for
  the second.\<close>

definition ex_result :: "int ndarray" where
  "ex_result =
     \<lparr>shape = [2, 1, 2], flat = [302922, 302922, 302958, 302958], dtype = ''float64''\<rparr>"








text \<open>The first call on a store: \<open>fi\<close> at DataArray address 0, \<open>xo\<close> and \<open>yo\<close> at array
  addresses 0 and 1.\<close>

definition ex_heap :: "int heap" where
  "ex_heap =
     \<lparr>ndarrays = (\<lambda>p. if p = 0 then ex_xo else ex_yo),
      dataarrays = (\<lambda>p. ex_fi),
      pylists = (\<lambda>p. []),
      pydicts = (\<lambda>p. []),
      next_ndarray = 2, next_dataarray = 1, next_pylist = 0, next_pydict = 0\<rparr>"

section \<open>Lemmas on the library operations\<close>

lemma collect_map_Inr: "collect (map Inr xs) = Inr xs"
  by (induction xs) simp_all

lemma collect_Inr_D: "collect xs = Inr ys \<Longrightarrow> xs = map Inr ys"
  by (induction xs arbitrary: ys) (auto split: sum.splits)

lemma chunks_concat:
  "length xs = m * k \<Longrightarrow> concat (map (\<lambda>i. take k (drop (i * k) xs)) [0 ..< m]) = xs"
proof (induction m arbitrary: xs rule: nat.induct)
  case zero
  then show ?case by simp
next
  case (Suc m)
  have "concat (map (\<lambda>i. take k (drop (i * k) xs)) [0 ..< m]) = take (m * k) xs"
  proof -
    have "concat (map (\<lambda>i. take k (drop (i * k) (take (m * k) xs))) [0 ..< m]) = take (m * k) xs"
      using Suc.prems by (intro Suc.IH) simp
    moreover have "\<And>i. i < m \<Longrightarrow> take k (drop (i * k) (take (m * k) xs)) = take k (drop (i * k) xs)"
    proof -
      fix i assume "i < m"
      then have "Suc i \<le> m" by simp
      then have "Suc i * k \<le> m * k" by (rule mult_le_mono1)
      then have "k + i * k \<le> m * k" by simp
      then have "k \<le> m * k - i * k" by linarith
      then show "take k (drop (i * k) (take (m * k) xs)) = take k (drop (i * k) xs)"
        by (simp add: drop_take min_def)
    qed
    then have "map (\<lambda>i. take k (drop (i * k) (take (m * k) xs))) [0 ..< m] =
               map (\<lambda>i. take k (drop (i * k) xs)) [0 ..< m]"
      by simp
    ultimately show ?thesis by simp
  qed
  moreover have "take k (drop (m * k) xs) = drop (m * k) xs"
    using Suc.prems by simp
  ultimately show ?case by simp
qed

lemma np_concatenate_single:
  assumes "ax < length (shape b)" "length (flat b) = prod_list (shape b)"
  shows "np_concatenate ax [b] = Inr b"
proof -
  have "prod_list (shape b) = prod_list (take ax (shape b)) * prod_list (drop ax (shape b))"
    by (metis append_take_drop_id prod_list.append)
  then have "concat (map (\<lambda>i. take (prod_list (drop ax (shape b)))
      (drop (i * prod_list (drop ax (shape b))) (flat b))) [0 ..< prod_list (take ax (shape b))]) = flat b"
    using assms(2) by (intro chunks_concat) simp
  then show ?thesis
    using assms(1) by (simp add: np_concatenate_def same_off_axis_def)
qed

lemma collect_list_all2:
  "list_all2 (\<lambda>n g. \<exists>r. f g = Inr r \<and> Q n r) c gs
    \<Longrightarrow> \<exists>rs. collect (map f gs) = Inr rs \<and> list_all2 Q c rs"
proof (induction c gs rule: list_all2_induct)
  case Nil
  then show ?case by simp
next
  case (Cons n c g gs)
  then obtain r rs where "f g = Inr r" "Q n r" "collect (map f gs) = Inr rs" "list_all2 Q c rs"
    by blast
  then have "collect (map f (g # gs)) = Inr (r # rs) \<and> list_all2 Q (n # c) (r # rs)"
    by simp
  then show ?case by blast
qed

lemma map_nth_shape:
  "list_all2 (\<lambda>n r. shape r = pre @ n # suf) c rs \<Longrightarrow> map (\<lambda>b. shape b ! length pre) rs = c"
  by (induction c rs rule: list_all2_induct) simp_all

lemma np_concatenate_shape:
  assumes "rs \<noteq> []" "list_all2 (\<lambda>n r. shape r = pre @ n # suf) c rs"
  shows "\<exists>r. np_concatenate (length pre) rs = Inr r \<and> shape r = pre @ sum_list c # suf"
proof -
  obtain a rest where rs: "rs = a # rest" using assms(1) by (cases rs) auto
  have each: "\<exists>n. shape b = pre @ n # suf" if "b \<in> set rs" for b
  proof -
    from that obtain i where "i < length rs" "rs ! i = b" by (auto simp: in_set_conv_nth)
    with assms(2) have "shape b = pre @ (c ! i) # suf"
      by (auto simp: list_all2_conv_all_nth)
    then show ?thesis by blast
  qed
  then obtain n0 where a: "shape a = pre @ n0 # suf" using rs by auto
  have "same_off_axis (length pre) a b" if "b \<in> set rs" for b
  proof -
    from each[OF that] obtain n where "shape b = pre @ n # suf" by blast
    then show ?thesis using a by (simp add: same_off_axis_def)
  qed
  then have same: "list_all (same_off_axis (length pre) a) rs"
    by (simp add: list_all_iff)
  have "map (\<lambda>b. shape b ! length pre) rs = c"
    using assms(2) by (rule map_nth_shape)
  then show ?thesis
    using same a by (simp add: np_concatenate_def rs)
qed

lemma collect_last_Inr: "collect xs = Inr vs \<Longrightarrow> collect_last xs = Inr vs"
proof -
  assume "collect xs = Inr vs"
  then have "xs = map Inr vs" by (rule collect_Inr_D)
  then have "rev xs = map Inr (rev vs)" by (simp add: rev_map)
  then show ?thesis by (simp add: collect_last_def collect_map_Inr)
qed

lemma collect_last_Inr_D: "collect_last xs = Inr vs \<Longrightarrow> xs = map Inr vs"
proof -
  assume a: "collect_last xs = Inr vs"
  then obtain ws where w: "collect (rev xs) = Inr ws" and v: "vs = rev ws"
    by (auto simp: collect_last_def split: sum.splits)
  from w have "rev xs = map Inr ws" by (rule collect_Inr_D)
  then have "xs = rev (map Inr ws)" by (metis rev_rev_ident)
  then show ?thesis using v by (simp add: rev_map)
qed

lemma sum_list_const: "(\<And>x. x \<in> set xs \<Longrightarrow> f x = c) \<Longrightarrow> sum_list (map f xs) = length xs * c"
  by (induction xs) auto

lemma np_concatenate_flat:
  assumes "rs \<noteq> []"
    and "list_all2 (\<lambda>n r. shape r = pre @ n # suf \<and> length (flat r) = prod_list (shape r)) c rs"
    and "np_concatenate (length pre) rs = Inr r"
  shows "length (flat r) = prod_list (pre @ sum_list c # suf)"
proof -
  obtain a rest where rs: "rs = a # rest" using assms(1) by (cases rs) auto
  have each: "\<exists>n. shape b = pre @ n # suf \<and> length (flat b) = prod_list (shape b)"
    if "b \<in> set rs" for b
  proof -
    from that obtain i where "i < length rs" "rs ! i = b" by (auto simp: in_set_conv_nth)
    with assms(2) have "shape b = pre @ (c ! i) # suf \<and> length (flat b) = prod_list (shape b)"
      by (auto simp: list_all2_conv_all_nth)
    then show ?thesis by blast
  qed
  then obtain n0 where a: "shape a = pre @ n0 # suf" using rs by auto
  define k where "k b = prod_list (drop (length pre) (shape b))" for b :: "'a ndarray"
  have kb: "length (take (k b) (drop (i * k b) (flat b))) = k b"
    if "b \<in> set rs" "i < prod_list pre" for b i
  proof -
    from each[OF that(1)] obtain n where s: "shape b = pre @ n # suf"
      and l: "length (flat b) = prod_list (shape b)" by blast
    have "k b = n * prod_list suf" by (simp add: k_def s)
    then have "length (flat b) = prod_list pre * k b" using l s by simp
    moreover have "Suc i * k b \<le> prod_list pre * k b"
      using that(2) by (intro mult_le_mono1) simp
    ultimately have "k b + i * k b \<le> length (flat b)" by simp
    then show ?thesis by simp
  qed
  have ksum: "sum_list (map k rs) = sum_list c * prod_list suf"
    using assms(2)
  proof (induction c rs rule: list_all2_induct)
    case Nil
    then show ?case by simp
  next
    case (Cons n c r rs)
    then show ?case by (simp add: k_def add_mult_distrib)
  qed
  have inner: "length (concat (map (\<lambda>b. take (k b) (drop (i * k b) (flat b))) rs)) = sum_list (map k rs)"
    if "i < prod_list pre" for i
  proof -
    have "map (\<lambda>b. length (take (k b) (drop (i * k b) (flat b)))) rs = map k rs"
      using kb[OF _ that] by (intro map_cong refl)
    then show ?thesis by (simp only: length_concat map_map comp_def)
  qed
  have "length (concat (map (\<lambda>i. concat (map (\<lambda>b. take (k b) (drop (i * k b) (flat b))) rs))
          [0 ..< prod_list pre])) = prod_list pre * sum_list (map k rs)"
  proof -
    have "sum_list (map (\<lambda>i. length (concat (map (\<lambda>b. take (k b) (drop (i * k b) (flat b))) rs)))
             [0 ..< prod_list pre]) = length [0 ..< prod_list pre] * sum_list (map k rs)"
      by (rule sum_list_const) (simp add: inner)
    then show ?thesis by (simp add: length_concat comp_def)
  qed
  moreover have "flat r = concat (map (\<lambda>i. concat (map (\<lambda>b. take (k b) (drop (i * k b) (flat b))) rs))
          [0 ..< prod_list pre])"
    using assms(3) a unfolding k_def
    by (auto simp: np_concatenate_def rs split: if_splits)
  ultimately show ?thesis by (simp add: ksum)
qed

lemma concatenate2_fits:
  "grid_fits pre cs g \<Longrightarrow>
   \<exists>r. concatenate2 (length pre) g = Inr r \<and> shape r = pre @ map sum_list cs \<and>
       length (flat r) = prod_list (shape r)"
proof (induction pre cs g rule: grid_fits.induct)
  case (1 pre b)
  then show ?case by simp
next
  case (2 pre c cs gs)
  have fits: "list_all2 (\<lambda>n g. grid_fits (pre @ [n]) cs g) c gs" and ne: "gs \<noteq> []"
    using "2.prems" by simp_all
  have "list_all2 (\<lambda>n g. \<exists>r. concatenate2 (Suc (length pre)) g = Inr r
          \<and> (shape r = pre @ n # map sum_list cs \<and> length (flat r) = prod_list (shape r))) c gs"
  proof (rule list_all2_all_nthI)
    show "length c = length gs" using fits by (rule list_all2_lengthD)
  next
    fix i assume i: "i < length c"
    then have "i < length gs" using fits by (simp add: list_all2_lengthD)
    moreover from fits i have "grid_fits (pre @ [c ! i]) cs (gs ! i)"
      by (simp add: list_all2_conv_all_nth)
    ultimately show "\<exists>r. concatenate2 (Suc (length pre)) (gs ! i) = Inr r
          \<and> (shape r = pre @ c ! i # map sum_list cs \<and> length (flat r) = prod_list (shape r))"
      using "2.IH"[of "c ! i" "gs ! i"] i by simp
  qed
  from collect_list_all2[OF this]
  obtain rs where rs: "collect (map (concatenate2 (Suc (length pre))) gs) = Inr rs"
      "list_all2 (\<lambda>n r. shape r = pre @ n # map sum_list cs
          \<and> length (flat r) = prod_list (shape r)) c rs"
    by blast
  have rne: "rs \<noteq> []" using rs(2) fits ne by (auto dest: list_all2_lengthD)
  have sh: "list_all2 (\<lambda>n r. shape r = pre @ n # map sum_list cs) c rs"
    using rs(2) by (rule list_all2_mono) simp
  from np_concatenate_shape[OF rne sh]
  obtain r where r: "np_concatenate (length pre) rs = Inr r"
    "shape r = pre @ sum_list c # map sum_list cs" by blast
  from np_concatenate_flat[OF rne rs(2) r(1)] r rs(1) show ?case by simp
qed simp_all

lemma strip_lead_short: "length s \<le> n \<Longrightarrow> strip_lead n s = s"
  by (cases s) simp_all

lemma bc_flat_same: "length xs = prod_list s \<Longrightarrow> bc_flat s s xs = xs"
proof (induction s arbitrary: xs)
  case Nil
  then show ?case by simp
next
  case (Cons t ts)
  let ?k = "prod_list ts"
  have len: "length xs = t * ?k" using Cons.prems by simp
  have "bc_flat ts ts (take ?k (drop (i * ?k) xs)) = take ?k (drop (i * ?k) xs)" if "i < t" for i
  proof -
    from that have "Suc i \<le> t" by simp
    then have "Suc i * ?k \<le> t * ?k" by (rule mult_le_mono1)
    then have "?k \<le> t * ?k - i * ?k" by simp
    then have "length (take ?k (drop (i * ?k) xs)) = ?k" by (simp add: len)
    then show ?thesis by (rule Cons.IH)
  qed
  then have m: "map (\<lambda>i. bc_flat ts ts (take ?k (drop (i * ?k) xs))) [0 ..< t]
      = map (\<lambda>i. take ?k (drop (i * ?k) xs)) [0 ..< t]"
    by (intro map_cong refl) simp
  show ?case by (simp only: bc_flat.simps(1) simp_thms if_True m chunks_concat[OF len])
qed

lemma broadcast_into_fits:
  assumes "shape b = pre" "length (flat b) = prod_list pre"
  shows "broadcast_into pre b = Inr b"
proof -
  have "list_all2 (\<lambda>v t. v = t \<or> v = 1) pre pre" by (simp add: list_all2_same)
  then show ?thesis
    using assms by (simp add: broadcast_into_def strip_lead_short bc_flat_same)
qed

lemma deepfirst_fits:
  "grid_fits pre cs g \<Longrightarrow>
   \<exists>b. deepfirst g = Some b \<and> take (length pre) (shape b) = pre \<and> length pre \<le> length (shape b)"
proof (induction pre cs g rule: grid_fits.induct)
  case (1 pre b)
  then show ?case by simp
next
  case (2 pre c cs gs)
  from "2.prems" obtain n c' g gs' where c: "c = n # c'" and gs: "gs = g # gs'"
    and fit: "grid_fits (pre @ [n]) cs g"
    by (cases gs; cases c) auto
  from "2.IH"[of n g] fit c gs obtain b where b: "deepfirst g = Some b"
    "take (length (pre @ [n])) (shape b) = pre @ [n]" "length (pre @ [n]) \<le> length (shape b)"
    by auto
  from b(2) have "take (length pre) (take (length (pre @ [n])) (shape b)) = pre"
    by simp
  then have "take (length pre) (shape b) = pre" by (simp add: min_def)
  with b gs show ?case by simp
qed simp_all

lemma chunk_size_fits:
  assumes "grid_fits pre cs g" "dim < length pre"
  shows "chunk_size dim g = Inr (pre ! dim)"
proof -
  from deepfirst_fits[OF assms(1)] obtain b where b: "deepfirst g = Some b"
    "take (length pre) (shape b) = pre" "length pre \<le> length (shape b)"
    by blast
  from b(3) assms(2) have ne: "shape b \<noteq> []" and d: "dim < length (shape b)" by auto
  have "shape b ! dim = take (length pre) (shape b) ! dim" using assms(2) by simp
  then have "shape b ! dim = pre ! dim" by (simp only: b(2))
  then show ?thesis using b(1) ne d by (simp add: chunk_size_def)
qed

lemma chunks_from_arrays_fits:
  "grid_fits pre cs g \<Longrightarrow> chunks_from_arrays (length pre) g = Inr cs"
proof (induction pre cs g rule: grid_fits.induct)
  case (1 pre b)
  then show ?case by simp
next
  case (2 pre c cs gs)
  have fits: "list_all2 (\<lambda>n g. grid_fits (pre @ [n]) cs g) c gs"
    using "2.prems" by simp
  then have len: "length c = length gs" by (rule list_all2_lengthD)
  from "2.prems" obtain n c' g gs' where c: "c = n # c'" and gs: "gs = g # gs'"
    and fit: "grid_fits (pre @ [n]) cs g"
    by (cases gs; cases c) auto
  have "map (chunk_size (length pre)) gs = map Inr c"
  proof (rule nth_equalityI)
    show "length (map (chunk_size (length pre)) gs) = length (map Inr c)" by (simp add: len)
  next
    fix i assume "i < length (map (chunk_size (length pre)) gs)"
    then have i: "i < length gs" by simp
    with fits len have "grid_fits (pre @ [c ! i]) cs (gs ! i)"
      by (simp add: list_all2_conv_all_nth)
    from chunk_size_fits[OF this, of "length pre"]
    show "map (chunk_size (length pre)) gs ! i = map Inr c ! i"
      using i len by simp
  qed
  then have 1: "collect (map (chunk_size (length pre)) gs) = Inr c"
    by (simp only: collect_map_Inr)
  from "2.IH"[of n g] fit c gs have 2: "chunks_from_arrays (Suc (length pre)) g = Inr cs"
    by simp
  from 1 2 show ?case unfolding gs by simp
qed simp_all

lemma into_slots_fits:
  "grid_fits pre cs g \<Longrightarrow> into_slots pre cs g = Inr g"
proof (induction pre cs g rule: grid_fits.induct)
  case (1 pre b)
  then show ?case by (simp add: broadcast_into_fits)
next
  case (2 pre c cs gs)
  have fits: "list_all2 (\<lambda>n g. grid_fits (pre @ [n]) cs g) c gs"
    using "2.prems" by simp
  then have len: "length c = length gs" by (rule list_all2_lengthD)
  have "map (\<lambda>(n, g). into_slots (pre @ [n]) cs g) (zip c gs) = map Inr gs"
  proof (rule nth_equalityI)
    show "length (map (\<lambda>(n, g). into_slots (pre @ [n]) cs g) (zip c gs)) = length (map Inr gs)"
      by (simp add: len)
  next
    fix i assume "i < length (map (\<lambda>(n, g). into_slots (pre @ [n]) cs g) (zip c gs))"
    then have i: "i < length gs" "i < length c" by (simp_all add: len)
    with fits have "grid_fits (pre @ [c ! i]) cs (gs ! i)"
      by (simp add: list_all2_conv_all_nth)
    with "2.IH"[of "c ! i" "gs ! i"] i
    have "into_slots (pre @ [c ! i]) cs (gs ! i) = Inr (gs ! i)" by simp
    then show "map (\<lambda>(n, g). into_slots (pre @ [n]) cs g) (zip c gs) ! i = map Inr gs ! i"
      using i by simp
  qed
  then have "collect (map (\<lambda>(n, g). into_slots (pre @ [n]) cs g) (zip c gs)) = Inr gs"
    by (simp only: collect_map_Inr)
  then show ?case by (simp add: len)
qed simp_all

lemma deepfirst_transposelist: "deepfirst (transposelist k g) = deepfirst g"
  by (induction k) simp_all

lemma chunk_size_transposelist: "chunk_size dim (transposelist k g) = chunk_size dim g"
  by (simp add: chunk_size_def deepfirst_transposelist)

lemma chunks_from_arrays_transposelist:
  assumes "grid_fits pre cs g"
  shows "k \<le> length pre \<Longrightarrow>
    chunks_from_arrays (length pre - k) (transposelist k g)
      = Inr (map (\<lambda>n. [n]) (drop (length pre - k) pre) @ cs)"
proof (induction k)
  case 0
  then show ?case using chunks_from_arrays_fits[OF assms] by simp
next
  case (Suc k)
  let ?dim = "length pre - Suc k"
  from Suc.prems have d: "?dim < length pre" and s: "Suc ?dim = length pre - k" by simp_all
  have 1: "chunk_size ?dim (transposelist k g) = Inr (pre ! ?dim)"
    unfolding chunk_size_transposelist using assms d by (rule chunk_size_fits)
  have 2: "chunks_from_arrays (Suc ?dim) (transposelist k g)
      = Inr (map (\<lambda>n. [n]) (drop (Suc ?dim) pre) @ cs)"
    unfolding s using Suc.prems by (intro Suc.IH) simp
  have 3: "drop ?dim pre = pre ! ?dim # drop (Suc ?dim) pre"
    using d by (rule Cons_nth_drop_Suc[symmetric])
  show ?case by (simp add: 1 2 3)
qed

lemma into_slots_transposelist:
  assumes "grid_fits pre cs g"
  shows "k \<le> length pre \<Longrightarrow>
    into_slots (take (length pre - k) pre) (map (\<lambda>n. [n]) (drop (length pre - k) pre) @ cs)
      (transposelist k g) = Inr (transposelist k g)"
proof (induction k)
  case 0
  then show ?case using into_slots_fits[OF assms] by simp
next
  case (Suc k)
  let ?dim = "length pre - Suc k"
  from Suc.prems have d: "?dim < length pre" and s: "Suc ?dim = length pre - k" by simp_all
  have 3: "drop ?dim pre = pre ! ?dim # drop (Suc ?dim) pre"
    using d by (rule Cons_nth_drop_Suc[symmetric])
  have 4: "take ?dim pre @ [pre ! ?dim] = take (Suc ?dim) pre"
    using d by (rule take_Suc_conv_app_nth[symmetric])
  have 2: "into_slots (take (Suc ?dim) pre) (map (\<lambda>n. [n]) (drop (Suc ?dim) pre) @ cs)
      (transposelist k g) = Inr (transposelist k g)"
    unfolding s using Suc.prems by (intro Suc.IH) simp
  show ?case by (simp add: 3 4 2)
qed

lemma concatenate2_transposelist:
  assumes "grid_fits pre cs g"
  shows "k \<le> length pre \<Longrightarrow>
    concatenate2 (length pre - k) (transposelist k g) = concatenate2 (length pre) g"
proof (induction k)
  case 0
  then show ?case by simp
next
  case (Suc k)
  let ?dim = "length pre - Suc k"
  from Suc.prems have d: "?dim < length pre" and s: "Suc ?dim = length pre - k" by simp_all
  from concatenate2_fits[OF assms] obtain r where r: "concatenate2 (length pre) g = Inr r"
    "shape r = pre @ map sum_list cs" "length (flat r) = prod_list (shape r)"
    by blast
  have 2: "concatenate2 (Suc ?dim) (transposelist k g) = Inr r"
    unfolding s using Suc.prems r(1) by (simp add: Suc.IH)
  have "np_concatenate ?dim [r] = Inr r"
    using d r(2,3) by (intro np_concatenate_single) simp_all
  then show ?case by (simp add: 2 r(1))
qed

lemma concatenate_axes_fits:
  assumes "grid_fits pre cs g"
  shows "concatenate_axes (length pre) g = concatenate2 (length pre) g"
proof (cases "transposelist (length pre) g")
  case (Blk b)
  then have "pre = []" "g = Blk b" by (cases pre; simp)+
  then show ?thesis by (simp add: concatenate_axes_def)
next
  case (Grid ts)
  show ?thesis
  proof (cases ts)
    case Nil
    with Grid have "pre = []" "g = Grid []" by (cases pre; simp)+
    with assms show ?thesis by (cases cs) simp_all
  next
    case (Cons t ts')
    from chunks_from_arrays_transposelist[OF assms, of "length pre"]
    have 1: "chunks_from_arrays 0 (Grid (t # ts')) = Inr (map (\<lambda>n. [n]) pre @ cs)"
      by (simp add: Grid Cons)
    from into_slots_transposelist[OF assms, of "length pre"]
    have 2: "into_slots [] (map (\<lambda>n. [n]) pre @ cs) (Grid (t # ts')) = Inr (Grid (t # ts'))"
      by (simp add: Grid Cons)
    from concatenate2_transposelist[OF assms, of "length pre"]
    have 3: "concatenate2 0 (Grid (t # ts')) = concatenate2 (length pre) g"
      by (simp add: Grid Cons)
    have "concatenate3 (Grid (t # ts')) = concatenate2 (length pre) g"
      unfolding concatenate3.simps 1 2 sum.case by (rule 3)
    then show ?thesis by (simp add: concatenate_axes_def Grid Cons)
  qed
qed

lemma concatenate3_fits:
  assumes "grid_fits [] cs g"
  shows "concatenate3 g = concatenate2 0 g"
  using concatenate_axes_fits[OF assms] by (simp add: concatenate_axes_def)

lemma single_block_shape:
  "grid_fits pre cs g \<Longrightarrow> single_block g = Some b \<Longrightarrow> shape b = pre @ map sum_list cs"
proof (induction pre cs g rule: grid_fits.induct)
  case (2 pre c cs gs)
  from "2.prems"(2) obtain g where gs: "gs = [g]" and sb: "single_block g = Some b"
    by (cases "Grid gs" rule: single_block.cases) auto
  with "2.prems"(1) obtain n where c: "c = [n]" and fit: "grid_fits (pre @ [n]) cs g"
    by (auto simp: list_all2_Cons2)
  from "2.IH"[of n g] c gs fit sb show ?case by simp
qed simp_all

lemma grid_fits_unsplit:
  assumes "grid_fits pre [[a], [c]] g"
  obtains b where "g = Grid [Grid [Blk b]]" "shape b = pre @ [a, c]"
    "length (flat b) = prod_list (shape b)"
proof -
  from assms obtain g1 where g: "g = Grid [g1]" and f1: "grid_fits (pre @ [a]) [[c]] g1"
    by (cases g) (auto simp: list_all2_Cons1)
  from f1 obtain g2 where g1: "g1 = Grid [g2]" and f2: "grid_fits (pre @ [a] @ [c]) [] g2"
    by (cases g1) (auto simp: list_all2_Cons1)
  from f2 obtain b where "g2 = Blk b" "shape b = pre @ [a, c]" "length (flat b) = prod_list (shape b)"
    by (cases g2) auto
  with g g1 that show thesis by blast
qed

lemma concatenate_axes_unsplit:
  assumes "grid_fits pre [[a], [c]] g"
  obtains b where "g = Grid [Grid [Blk b]]" "concatenate_axes (length pre) g = Inr b"
    "shape b = pre @ [a, c]" "length (flat b) = prod_list (shape b)"
proof -
  from assms obtain b where b: "g = Grid [Grid [Blk b]]" "shape b = pre @ [a, c]"
    "length (flat b) = prod_list (shape b)"
    by (rule grid_fits_unsplit)
  have "np_concatenate (Suc (length pre)) [b] = Inr b" "np_concatenate (length pre) [b] = Inr b"
    using b(2,3) by (simp_all add: np_concatenate_single)
  then have "concatenate2 (length pre) g = Inr b"
    by (simp add: b(1))
  then have "concatenate_axes (length pre) g = Inr b"
    by (simp only: concatenate_axes_fits[OF assms])
  with b that show thesis by blast
qed

lemma map_lead_whole:
  "map_lead n (\<lambda>sub. new_axes 1 1 (on_block func (concatenate_axes ax sub))) g
     = map_grid (on_block func) (map_lead n (\<lambda>sub. Grid [Grid [Blk (concatenate_axes ax sub)]]) g)"
proof (induction n arbitrary: g)
  case 0
  then show ?case by (simp add: new_axes_def)
next
  case (Suc n)
  then show ?case by (cases g) (simp_all add: new_axes_def)
qed

lemma grid_fits_last2:
  assumes "grid_fits pre [c1, c2] g"
  obtains b where "concatenate_axes (length pre) g = Inr b"
    "grid_fits pre [[sum_list c1], [sum_list c2]] (Grid [Grid [Blk b]])"
proof -
  from concatenate2_fits[OF assms] obtain b where "concatenate_axes (length pre) g = Inr b"
    "shape b = pre @ [sum_list c1, sum_list c2]" "length (flat b) = prod_list (shape b)"
    unfolding concatenate_axes_fits[OF assms] by auto
  then show thesis by (intro that[of b]) simp_all
qed

lemma map_list_all2:
  "list_all2 (\<lambda>n x. \<exists>r. f x = F r \<and> Q n r) c xs
    \<Longrightarrow> \<exists>rs. map f xs = map F rs \<and> list_all2 Q c rs"
proof (induction c xs rule: list_all2_induct)
  case Nil
  then show ?case by simp
next
  case (Cons n c x xs)
  then obtain r rs where "f x = F r" "Q n r" "map f xs = map F rs" "list_all2 Q c rs"
    by blast
  then have "map f (x # xs) = map F (r # rs) \<and> list_all2 Q (n # c) (r # rs)"
    by simp
  then show ?case by blast
qed

lemma whole_fits:
  "grid_fits pre (lcs @ [c1, c2]) g \<Longrightarrow>
   \<exists>g'. map_lead (length lcs)
           (\<lambda>sub. Grid [Grid [Blk (concatenate_axes (length pre + length lcs) sub)]]) g
         = map_grid Inr g' \<and>
        grid_fits pre (lcs @ [[sum_list c1], [sum_list c2]]) g'"
proof (induction lcs arbitrary: pre g)
  case Nil
  then have "grid_fits pre [c1, c2] g" by simp
  then obtain b where "concatenate_axes (length pre) g = Inr b"
    "grid_fits pre [[sum_list c1], [sum_list c2]] (Grid [Grid [Blk b]])"
    by (rule grid_fits_last2)
  then have "map_lead (length ([] :: nat list list))
           (\<lambda>sub. Grid [Grid [Blk (concatenate_axes (length pre + length ([] :: nat list list)) sub)]]) g
         = map_grid Inr (Grid [Grid [Blk b]]) \<and>
        grid_fits pre ([] @ [[sum_list c1], [sum_list c2]]) (Grid [Grid [Blk b]])"
    by simp
  then show ?case by blast
next
  case (Cons lc lcs)
  from Cons.prems obtain gs where g: "g = Grid gs" and ne: "gs \<noteq> []"
    and fits: "list_all2 (\<lambda>n g. grid_fits (pre @ [n]) (lcs @ [c1, c2]) g) lc gs"
    by (cases g) auto
  let ?h = "\<lambda>sub. Grid [Grid [Blk (concatenate_axes (length pre + length (lc # lcs)) sub)]]"
  have "list_all2 (\<lambda>n x. \<exists>r. map_lead (length lcs) ?h x = map_grid Inr r \<and>
           grid_fits (pre @ [n]) (lcs @ [[sum_list c1], [sum_list c2]]) r) lc gs"
  proof (rule list_all2_all_nthI)
    show "length lc = length gs" using fits by (rule list_all2_lengthD)
  next
    fix i assume i: "i < length lc"
    from fits i have "grid_fits (pre @ [lc ! i]) (lcs @ [c1, c2]) (gs ! i)"
      by (simp add: list_all2_conv_all_nth)
    from Cons.IH[OF this]
    show "\<exists>r. map_lead (length lcs) ?h (gs ! i) = map_grid Inr r \<and>
           grid_fits (pre @ [lc ! i]) (lcs @ [[sum_list c1], [sum_list c2]]) r"
      by simp
  qed
  from map_list_all2[OF this]
  obtain rs where rs: "map (map_lead (length lcs) ?h) gs = map (map_grid Inr) rs"
    "list_all2 (\<lambda>n r. grid_fits (pre @ [n]) (lcs @ [[sum_list c1], [sum_list c2]]) r) lc rs"
    by blast
  have "rs \<noteq> []" using rs(2) fits ne by (auto dest: list_all2_lengthD)
  with rs have "map_lead (length (lc # lcs)) ?h g = map_grid Inr (Grid rs) \<and>
        grid_fits pre ((lc # lcs) @ [[sum_list c1], [sum_list c2]]) (Grid rs)"
    by (simp add: g)
  then show ?case by blast
qed

lemma whole_unsplit:
  "grid_fits pre (lcs @ [[a], [c]]) g \<Longrightarrow>
   map_lead (length lcs)
     (\<lambda>sub. Grid [Grid [Blk (concatenate_axes (length pre + length lcs) sub)]]) g
   = map_grid Inr g"
proof (induction lcs arbitrary: pre g)
  case Nil
  then have "grid_fits pre [[a], [c]] g" by simp
  then obtain b where "g = Grid [Grid [Blk b]]" "concatenate_axes (length pre) g = Inr b"
    by (rule concatenate_axes_unsplit)
  then show ?case by simp
next
  case (Cons lc lcs)
  from Cons.prems obtain gs where g: "g = Grid gs"
    and fits: "list_all2 (\<lambda>n g. grid_fits (pre @ [n]) (lcs @ [[a], [c]]) g) lc gs"
    by (cases g) auto
  have "map_lead (length lcs)
     (\<lambda>sub. Grid [Grid [Blk (concatenate_axes (length pre + length (lc # lcs)) sub)]]) x
     = map_grid Inr x"
    if "x \<in> set gs" for x
  proof -
    from that obtain i where i: "i < length gs" "gs ! i = x" by (auto simp: in_set_conv_nth)
    with fits have "grid_fits (pre @ [lc ! i]) (lcs @ [[a], [c]]) x"
      by (auto simp: list_all2_conv_all_nth)
    from Cons.IH[OF this] show ?thesis by simp
  qed
  then show ?case by (simp add: g)
qed



lemma collect_grid_map:
  "grid_fits pre (lcs @ [[a], [c]]) g \<Longrightarrow> grid_all (kernel_fits func ny nx) g \<Longrightarrow>
   \<exists>g'. collect_grid (map_grid func g) = Inr g' \<and> grid_fits pre (lcs @ [[ny], [nx]]) g'"
proof (induction lcs arbitrary: pre g)
  case Nil
  then have "grid_fits pre [[a], [c]] g" by simp
  then obtain b where b: "g = Grid [Grid [Blk b]]" "shape b = pre @ [a, c]"
    by (rule grid_fits_unsplit)
  with Nil.prems(2) obtain r where "func b = Inr r" "shape r = pre @ [ny, nx]"
    "length (flat r) = prod_list (shape r)"
    by (auto simp: kernel_fits_def split: sum.splits)
  then show ?case by (simp add: b(1) collect_last_def)
next
  case (Cons lc lcs)
  from Cons.prems(1) obtain gs where g: "g = Grid gs" and ne: "gs \<noteq> []"
    and fits: "list_all2 (\<lambda>n g. grid_fits (pre @ [n]) (lcs @ [[a], [c]]) g) lc gs"
    by (cases g) auto
  have "list_all2 (\<lambda>n x. \<exists>r. collect_grid (map_grid func x) = Inr r \<and>
           grid_fits (pre @ [n]) (lcs @ [[ny], [nx]]) r) lc gs"
  proof (rule list_all2_all_nthI)
    show "length lc = length gs" using fits by (rule list_all2_lengthD)
  next
    fix i assume i: "i < length lc"
    then have ig: "i < length gs" using fits by (simp add: list_all2_lengthD)
    from fits i have "grid_fits (pre @ [lc ! i]) (lcs @ [[a], [c]]) (gs ! i)"
      by (simp add: list_all2_conv_all_nth)
    moreover have "grid_all (kernel_fits func ny nx) (gs ! i)"
      using Cons.prems(2) ig by (simp add: g list_all_length)
    ultimately show "\<exists>r. collect_grid (map_grid func (gs ! i)) = Inr r \<and>
           grid_fits (pre @ [lc ! i]) (lcs @ [[ny], [nx]]) r"
      by (rule Cons.IH)
  qed
  from collect_list_all2[OF this]
  obtain rs where rs0: "collect (map (\<lambda>x. collect_grid (map_grid func x)) gs) = Inr rs"
    and rs2: "list_all2 (\<lambda>n r. grid_fits (pre @ [n]) (lcs @ [[ny], [nx]]) r) lc rs"
    by blast
  note rs = collect_last_Inr[OF rs0] rs2
  have "rs \<noteq> []" using rs(2) fits ne by (auto dest: list_all2_lengthD)
  with rs show ?case by (simp add: g comp_def)
qed

lemma chunks_last2:
  assumes "2 \<le> length cs"
  obtains lcs c1 c2 where "cs = lcs @ [c1, c2]"
proof -
  have "length (last2 cs) = 2" using assms by (simp add: last2_def)
  then obtain c1 c2 where l: "last2 cs = [c1, c2]"
    by (metis (no_types, opaque_lifting) length_0_conv length_Suc_conv numeral_2_eq_2)
  then have "cs = take (length cs - 2) cs @ [c1, c2]"
    by (metis append_take_drop_id last2_def)
  then show thesis by (rule that)
qed

lemma chunks_unsplit:
  assumes "2 \<le> length cs" "list_all (\<lambda>c. length c = 1) (last2 cs)"
  obtains lcs a c where "cs = lcs @ [[a], [c]]"
proof -
  have "length (last2 cs) = 2" using assms(1) by (simp add: last2_def)
  then obtain c1 c2 where l: "last2 cs = [c1, c2]"
    by (metis (no_types, opaque_lifting) length_0_conv length_Suc_conv numeral_2_eq_2)
  with assms(2) obtain a c where "c1 = [a]" "c2 = [c]"
    by (auto simp: length_Suc_conv)
  with l have "cs = take (length cs - 2) cs @ [[a], [c]]"
    by (metis append_take_drop_id last2_def)
  then show thesis by (rule that)
qed

lemma set_last2_append: "set_last2 (lcs @ [p, q]) a b = lcs @ [a, b]"
  by (simp add: set_last2_def)

lemma grid_fits_not_empty: "grid_fits pre cs g \<Longrightarrow> g \<noteq> Grid []"
  by (cases "(pre, cs, g)" rule: grid_fits.cases) auto

lemma collect_Nil_D: "collect xs = Inr [] \<Longrightarrow> xs = []"
  by (cases xs) (auto split: sum.splits)

lemma collect_last_Nil_D: "collect_last xs = Inr [] \<Longrightarrow> xs = []"
  by (drule collect_last_Inr_D) simp

lemma collect_grid_empty:
  "collect_grid g = Inr (Grid []) \<Longrightarrow> g = Grid []"
  by (cases g) (auto split: sum.splits dest: collect_last_Nil_D)

lemma map_of_rev_zip:
  assumes "distinct ds" "length ds = length shp" "i < length ds"
  shows "map_of (rev (zip ds shp)) (ds ! i) = Some (shp ! i)"
proof -
  have "distinct (map fst (rev (zip ds shp)))"
    using assms(1,2) by (simp add: rev_map[symmetric])
  moreover have "(ds ! i, shp ! i) \<in> set (rev (zip ds shp))"
    using assms(2,3) by (auto simp: in_set_zip)
  ultimately show ?thesis by (simp del: set_rev)
qed

lemma collect_as_variable:
  assumes "length (shape xo) = 1" "length (shape yo) = 1"
  shows "collect (map (\<lambda>(k, c). as_variable k c) (new_coords da xo yo)) =
     Inr (map (\<lambda>(k, v). (k, if k \<notin> set (last2 (dims da)) then v
              else \<lparr>vdims = [k], vvalues = (if k = last (dims da) then xo else yo)\<rparr>)) (coords da))"
proof -
  have "map (\<lambda>(k, c). as_variable k c) (new_coords da xo yo) =
     map Inr (map (\<lambda>(k, v). (k, if k \<notin> set (last2 (dims da)) then v
              else \<lparr>vdims = [k], vvalues = (if k = last (dims da) then xo else yo)\<rparr>)) (coords da))"
    using assms by (auto simp: new_coords_def as_variable_def)
  then show ?thesis by (simp only: collect_map_Inr)
qed

section \<open>Lemmas on linint2\<close>

lemma default_coord_Some: "default_coord fi k (Some a) = Inr a"
  by (simp add: default_coord_def)

lemma default_coord_ndarray: "default_coord (NdArray a) k None = Inl AttributeError"
  by (simp add: default_coord_def)

lemma default_xmsg_Some: "default_xmsg D fi (Some m) = Inr m"
  by (simp add: default_xmsg_def)

lemma linint2_ndarray:
  "linint2 K D (NdArray a) xo yo icycx xmsg meta xi yi =
     (case default_xmsg D (NdArray a) xmsg of Inl e \<Rightarrow> Inl e | Inr m \<Rightarrow> Inl AttributeError)"
proof (cases "default_xmsg D (NdArray a) xmsg")
  case (Inl e)
  then show ?thesis by (simp add: linint2_def)
next
  case (Inr m)
  show ?thesis
  proof (cases xi)
    case None
    then show ?thesis using Inr by (simp add: linint2_def default_coord_ndarray)
  next
    case (Some x)
    then show ?thesis using Inr
      by (cases yi) (simp_all add: linint2_def default_coord_ndarray default_coord_Some)
  qed
qed

lemma linint2_unchunked:
  "linint2 K D (DataArray (da\<lparr>data := Numpy a\<rparr>)) xo yo icycx xmsg meta xi yi =
     (case default_xmsg D (DataArray (da\<lparr>data := Numpy a\<rparr>)) xmsg of Inl e \<Rightarrow> Inl e | Inr m \<Rightarrow>
      (case default_coord (DataArray (da\<lparr>data := Numpy a\<rparr>)) 1 xi of Inl e \<Rightarrow> Inl e | Inr x \<Rightarrow>
       (case default_coord (DataArray (da\<lparr>data := Numpy a\<rparr>)) 2 yi of Inl e \<Rightarrow> Inl e | Inr y \<Rightarrow>
          Inl TypeError)))"
  by (simp add: linint2_def split: sum.splits)

lemma isl_case_sum: "isl (case s of Inl e \<Rightarrow> Inl e | Inr m \<Rightarrow> Inl (c :: error)) "
  by (cases s) simp_all

lemma default_xmsg_table:
  "D (fi_dtype fi) = Some m \<Longrightarrow> default_xmsg D fi None = default_xmsg D fi (Some m)"
  by (simp add: default_xmsg_def)

lemma default_coord_last:
  "dims da \<noteq> [] \<Longrightarrow> map_of (coords da) (last (dims da)) = Some v \<Longrightarrow>
   default_coord (DataArray da) 1 None = default_coord (DataArray da) 1 (Some (vvalues v))"
  by (simp add: default_coord_def getitem_neg_def coords_getitem_def last_conv_nth Suc_leI)

lemma default_coord_last_but_one:
  "2 \<le> length (dims da) \<Longrightarrow> map_of (coords da) (dims da ! (length (dims da) - 2)) = Some w \<Longrightarrow>
   default_coord (DataArray da) 2 None = default_coord (DataArray da) 2 (Some (vvalues w))"
  by (simp add: default_coord_def getitem_neg_def coords_getitem_def)

lemma shape_1d: "length (shape a) = 1 \<Longrightarrow> shape a = [len a]"
  by (cases "shape a") (simp_all add: len_def)

lemma xr_DataArray_Inr_D:
  assumes "xr_DataArray a at ds cs = Inr r"
  shows "data r = Numpy a" "dims r = ds" "attrs r = at"
    "collect (map (\<lambda>(k, c). as_variable k c) cs) = Inr (coords r)"
    "length ds = length (shape a)"
  using assms by (auto simp: xr_DataArray_def split: if_splits sum.splits)

lemma collect_new_coords_D:
  "collect (map (\<lambda>(k, c). as_variable k c)
      (map (\<lambda>(k, v). (k, if k \<notin> L then CoordVar v
                          else if k = l then CoordArr xo else CoordArr yo)) cs)) = Inr vs
   \<Longrightarrow> vs = map (\<lambda>(k, v). (k, if k \<notin> L then v
              else \<lparr>vdims = [k], vvalues = (if k = l then xo else yo)\<rparr>)) cs"
proof (induction cs arbitrary: vs)
  case Nil
  then show ?case by simp
next
  case (Cons kv cs)
  obtain k v where kv: "kv = (k, v)" by (cases kv)
  from Cons.prems obtain w ws where w: "as_variable k (if k \<notin> L then CoordVar v
                          else if k = l then CoordArr xo else CoordArr yo) = Inr w"
    and ws: "collect (map (\<lambda>(k, c). as_variable k c)
      (map (\<lambda>(k, v). (k, if k \<notin> L then CoordVar v
                          else if k = l then CoordArr xo else CoordArr yo)) cs)) = Inr ws"
    and vs: "vs = w # ws"
    by (auto simp: kv split: sum.splits)
  from w have "w = (k, if k \<notin> L then v
              else \<lparr>vdims = [k], vvalues = (if k = l then xo else yo)\<rparr>)"
    by (auto simp: as_variable_def split: if_splits)
  with Cons.IH[OF ws] vs kv show ?case by simp
qed

lemma linint2_meta_D:
  assumes "linint2 K D (DataArray da) xo yo icycx xmsg True xi yi = Inr r"
  shows "attrs r = attrs da" "dims r = dims da"
    "coords r = map (\<lambda>(k, v). (k, if k \<notin> set (last2 (dims da)) then v
              else \<lparr>vdims = [k], vvalues = (if k = last (dims da) then xo else yo)\<rparr>)) (coords da)"
proof -
  from assms obtain res where x: "xr_DataArray res (attrs da) (dims da) (new_coords da xo yo) = Inr r"
    by (auto simp: linint2_def split: sum.splits array_data.splits)
  from xr_DataArray_Inr_D[OF x] show "attrs r = attrs da" "dims r = dims da" by simp_all
  from xr_DataArray_Inr_D(4)[OF x] show "coords r = map (\<lambda>(k, v). (k, if k \<notin> set (last2 (dims da)) then v
              else \<lparr>vdims = [k], vvalues = (if k = last (dims da) then xo else yo)\<rparr>)) (coords da)"
    unfolding new_coords_def by (rule collect_new_coords_D)
qed

lemma last2_two:
  assumes "2 \<le> length xs"
  shows "last2 xs = [xs ! (length xs - 2), last xs]"
proof -
  have "length (last2 xs) = 2" using assms by (simp add: last2_def)
  then obtain p q where pq: "last2 xs = [p, q]"
    by (metis (no_types, opaque_lifting) length_0_conv length_Suc_conv numeral_2_eq_2)
  have "p = last2 xs ! 0" "q = last2 xs ! 1" using pq by simp_all
  moreover have "Suc (length xs - 2) = length xs - 1" using assms by simp
  ultimately have "p = xs ! (length xs - 2)" "q = xs ! (length xs - 1)"
    using assms by (simp_all add: last2_def)
  moreover have "xs \<noteq> []" using assms by auto
  ultimately show ?thesis using pq by (simp add: last_conv_nth)
qed

lemma fo_shape_nth:
  assumes "2 \<le> length (chunks d)"
  shows "length (fo_shape d ny nx) = length (chunks d)"
    "fo_shape d ny nx ! (length (chunks d) - 2) = ny"
    "fo_shape d ny nx ! (length (chunks d) - 1) = nx"
proof -
  have s: "length (chunks d) - 1 = Suc (length (chunks d) - 2)" using assms by simp
  show "length (fo_shape d ny nx) = length (chunks d)" using assms by (simp add: fo_shape_def)
  have "fo_shape d ny nx ! length (map sum_list (take (length (chunks d) - 2) (chunks d))) = ny"
    unfolding fo_shape_def by (rule nth_append_length)
  then show "fo_shape d ny nx ! (length (chunks d) - 2) = ny" by simp
  show "fo_shape d ny nx ! (length (chunks d) - 1) = nx"
    unfolding fo_shape_def s by (simp add: nth_append)
qed

lemma relabelled_fits:
  assumes ds: "distinct ds" "length ds = length shp" "2 \<le> length ds"
    and shp: "shp ! (length ds - 2) = ny" "shp ! (length ds - 1) = nx"
    and k: "k \<in> set (last2 ds)"
    and a: "shape a = [if k = last ds then nx else ny]"
  shows "coord_fits ds shp (k, \<lparr>vdims = [k], vvalues = a\<rparr>)"
proof -
  have l2: "last2 ds = [ds ! (length ds - 2), last ds]" using ds(3) by (rule last2_two)
  have ne: "ds \<noteq> []" using ds(3) by auto
  have "map_of (rev (zip ds shp)) k = Some (if k = last ds then nx else ny)"
  proof (cases "k = last ds")
    case True
    then have "k = ds ! (length ds - 1)" using ne by (simp add: last_conv_nth)
    moreover have "map_of (rev (zip ds shp)) (ds ! (length ds - 1)) = Some (shp ! (length ds - 1))"
      using ds ne by (intro map_of_rev_zip) simp_all
    ultimately show ?thesis using True shp by simp
  next
    case False
    then have "k = ds ! (length ds - 2)" using k l2 by simp
    moreover have "map_of (rev (zip ds shp)) (ds ! (length ds - 2)) = Some (shp ! (length ds - 2))"
      using ds by (intro map_of_rev_zip) simp_all
    ultimately show ?thesis using False shp by simp
  qed
  moreover have "k \<in> set ds" using k by (auto simp: last2_def dest: in_set_dropD)
  ultimately show ?thesis using a by (simp add: coord_fits_def)
qed

lemma xr_DataArray_relabel:
  assumes ds: "distinct (dims da)" "length (dims da) = length (shape res)" "2 \<le> length (dims da)"
    and shp: "shape res ! (length (dims da) - 2) = len yo" "shape res ! (length (dims da) - 1) = len xo"
    and xo: "length (shape xo) = 1" and yo: "length (shape yo) = 1"
    and kept: "kept_coords_fit da (shape res)"
  shows "xr_DataArray res (attrs da) (dims da) (new_coords da xo yo) =
     Inr \<lparr>data = Numpy res, dims = dims da,
          coords = map (\<lambda>(k, v). (k, if k \<notin> set (last2 (dims da)) then v
              else \<lparr>vdims = [k], vvalues = (if k = last (dims da) then xo else yo)\<rparr>)) (coords da),
          attrs = attrs da\<rparr>"
proof -
  have "coord_fits (dims da) (shape res) (k, if k \<notin> set (last2 (dims da)) then v
              else \<lparr>vdims = [k], vvalues = (if k = last (dims da) then xo else yo)\<rparr>)"
    if "(k, v) \<in> set (coords da)" for k v
  proof (cases "k \<in> set (last2 (dims da))")
    case False
    then show ?thesis using kept that by (auto simp: kept_coords_fit_def list_all_iff)
  next
    case True
    have "shape (if k = last (dims da) then xo else yo) = [if k = last (dims da) then len xo else len yo]"
      using xo yo by (simp add: shape_1d)
    from relabelled_fits[OF ds shp True this] True show ?thesis by simp
  qed
  then have "list_all (coord_fits (dims da) (shape res))
      (map (\<lambda>(k, v). (k, if k \<notin> set (last2 (dims da)) then v
              else \<lparr>vdims = [k], vvalues = (if k = last (dims da) then xo else yo)\<rparr>)) (coords da))"
    by (auto simp: list_all_iff)
  then show ?thesis
    using ds(2) by (simp add: xr_DataArray_def collect_as_variable[OF xo yo])
qed

lemma map_of_relabel:
  assumes "distinct (map fst cs)" "(k, v) \<in> set cs"
  shows "map_of (map (\<lambda>(k, v). (k, f k v)) cs) k = Some (f k v)"
proof -
  have "map fst (map (\<lambda>(k, v). (k, f k v)) cs) = map fst cs" by (induction cs) auto
  then have "distinct (map fst (map (\<lambda>(k, v). (k, f k v)) cs))" using assms(1) by (simp only:)
  moreover have "(k, f k v) \<in> set (map (\<lambda>(k, v). (k, f k v)) cs)"
    using assms(2) by force
  ultimately show ?thesis by (simp only: map_of_eq_Some_iff)
qed


lemma on_block_Inr: "on_block func (Inr b) = func b"
  by (simp add: on_block_def)

lemma map_grid_on_block: "map_grid (on_block func) (map_grid Inr g) = map_grid func g"
  by (simp add: grid.map_comp comp_def on_block_Inr)

lemma linint2_fo_chunks:
  "linint2_fo K d xi yi xo yo icycx m dt = Inr fo \<Longrightarrow>
   chunks fo = take (length (chunks d) - 2) (chunks d) @ [shape yo, shape xo]"
  by (auto simp: linint2_fo_def map_blocks_def set_last2_def Let_def split: if_splits)

lemma linint2_fo_eq:
  assumes "chunks d \<noteq> []" and xo: "length (shape xo) = 1" and yo: "length (shape yo) = 1"
  shows "linint2_fo K d xi yi xo yo icycx m dt =
     Inr \<lparr>chunks = take (length (chunks d) - 2) (chunks d) @ [shape yo, shape xo],
          blocks = map_grid (on_block (\<lambda>b. K xi yi b xo yo icycx m)) (whole_last2 d),
          dask_dtype = dt\<rparr>"
proof -
  let ?n = "length (chunks d) - 2"
  let ?fo = "take ?n (chunks d) @ [shape yo, shape xo]"
  have l: "length (take ?n (chunks d)) = ?n" by simp
  have 1: "?fo ! ?n = shape yo" using nth_append_length[of "take ?n (chunks d)"] l by metis
  have 2: "?fo ! Suc ?n = shape xo"
    using nth_append[of "take ?n (chunks d)" "[shape yo, shape xo]" "Suc ?n"] l by simp
  have "map_lead ?n (\<lambda>g. new_axes (length (?fo ! ?n)) (length (?fo ! Suc ?n))
           (case concatenate_axes ?n g of Inl e \<Rightarrow> Inl e | Inr b \<Rightarrow> K xi yi b xo yo icycx m))
         (blocks d)
       = map_grid (on_block (\<lambda>b. K xi yi b xo yo icycx m)) (whole_last2 d)"
    unfolding 1 2 xo yo whole_last2_def
    using map_lead_whole[of ?n "\<lambda>b. K xi yi b xo yo icycx m" ?n "blocks d"]
    by (simp add: on_block_def)
  then show ?thesis
    using assms(1) by (simp add: linint2_fo_def map_blocks_def set_last2_def Let_def)
qed

lemma whole_last2_fits:
  assumes "2 \<le> length (chunks d)" "grid_fits [] (chunks d) (blocks d)"
  obtains g' where "whole_last2 d = map_grid Inr g'"
    "grid_fits [] (whole_chunks (chunks d)) g'"
proof -
  from assms(1) obtain lcs c1 c2 where cs: "chunks d = lcs @ [c1, c2]" by (rule chunks_last2)
  have "grid_fits [] (lcs @ [c1, c2]) (blocks d)" using assms(2) cs by simp
  from whole_fits[OF this] obtain g' where
    "map_lead (length lcs) (\<lambda>sub. Grid [Grid [Blk (concatenate_axes (length lcs) sub)]]) (blocks d)
       = map_grid Inr g'"
    "grid_fits [] (lcs @ [[sum_list c1], [sum_list c2]]) g'"
    by auto
  then show thesis
    by (intro that[of g']) (simp_all add: whole_last2_def whole_chunks_def last2_def cs)
qed


lemma whole_last2_unsplit:
  assumes "2 \<le> length (chunks d)" "grid_fits [] (chunks d) (blocks d)" "unsplit d"
  shows "whole_last2 d = map_grid Inr (blocks d)"
proof -
  from assms(1,3) obtain lcs a c where cs: "chunks d = lcs @ [[a], [c]]"
    unfolding unsplit_def by (rule chunks_unsplit)
  have "grid_fits [] (lcs @ [[a], [c]]) (blocks d)" using assms(2) cs by simp
  from whole_unsplit[OF this] show ?thesis by (simp add: whole_last2_def cs)
qed

lemma blockwise_whole_unsplit:
  assumes "2 \<le> length (chunks d)" "grid_fits [] (chunks d) (blocks d)" "unsplit d"
  shows "blockwise_whole func d = blockwise func d"
  by (simp add: blockwise_whole_def blockwise_def whole_last2_unsplit[OF assms] map_grid_on_block)

lemma compute_whole:
  assumes "2 \<le> length (chunks d)" "grid_fits [] (chunks d) (blocks d)"
  shows "compute \<lparr>chunks = cs, blocks = map_grid (on_block func) (whole_last2 d), dask_dtype = dt\<rparr>
         = blockwise_whole func d"
proof -
  from assms obtain g' where g': "whole_last2 d = map_grid Inr g'"
    "grid_fits [] (whole_chunks (chunks d)) g'"
    by (rule whole_last2_fits)
  have "g' \<noteq> Grid []" using g'(2) by (rule grid_fits_not_empty)
  then have "map_grid (on_block func) (whole_last2 d) \<noteq> Grid []"
    unfolding g'(1) by (cases g') auto
  then have "g \<noteq> Grid []" if "collect_grid (map_grid (on_block func) (whole_last2 d)) = Inr g" for g
    using collect_grid_empty that by blast
  then show ?thesis
    by (auto simp: compute_def blockwise_whole_def assemble_def split: sum.splits)
qed

lemma assemble_fits:
  assumes "2 \<le> length (chunks d)" "grid_fits [] (chunks d) (blocks d)"
    and "grid_all (kernel_keeps func ny nx) (whole_last2 d)"
  shows "\<exists>r. blockwise_whole func d = Inr r \<and> shape r = fo_shape d ny nx"
proof -
  from assms(1) obtain lcs c1 c2 where cs: "chunks d = lcs @ [c1, c2]" by (rule chunks_last2)
  from assms(1,2) obtain g where g: "whole_last2 d = map_grid Inr g"
    "grid_fits [] (whole_chunks (chunks d)) g"
    by (rule whole_last2_fits)
  have wc: "whole_chunks (chunks d) = lcs @ [[sum_list c1], [sum_list c2]]"
    by (simp add: whole_chunks_def last2_def cs)
  have fits: "grid_fits [] (lcs @ [[sum_list c1], [sum_list c2]]) g" using g(2) wc by simp
  have "grid_all (kernel_keeps func ny nx) (map_grid Inr g)" using assms(3) g(1) by simp
  then have kern: "grid_all (kernel_fits func ny nx) g"
    by (induction g) (simp_all add: kernel_keeps_def list_all_iff)
  from collect_grid_map[OF fits kern]
  obtain g' where g': "collect_grid (map_grid func g) = Inr g'"
    "grid_fits [] (lcs @ [[ny], [nx]]) g'" by blast
  have shp: "fo_shape d ny nx = [] @ map sum_list (lcs @ [[ny], [nx]])"
    by (simp add: fo_shape_def cs)
  have bw: "blockwise_whole func d =
      (case single_block g' of Some b \<Rightarrow> Inr b | None \<Rightarrow> concatenate3 g')"
    by (simp add: blockwise_whole_def assemble_def g(1) map_grid_on_block g'(1))
  show ?thesis
  proof (cases "single_block g'")
    case None
    from concatenate2_fits[OF g'(2)] obtain r where "concatenate3 g' = Inr r"
      "shape r = [] @ map sum_list (lcs @ [[ny], [nx]])"
      unfolding concatenate3_fits[OF g'(2)] by auto
    then show ?thesis using None shp by (simp add: bw)
  next
    case (Some b)
    from single_block_shape[OF g'(2) Some] have "shape b = [] @ map sum_list (lcs @ [[ny], [nx]])" .
    then show ?thesis using Some shp by (simp add: bw)
  qed
qed

lemma linint2_chunked:
  assumes "data da = Dask d"
    and "default_xmsg D (DataArray da) xmsg = Inr m"
    and "default_coord (DataArray da) 1 xi = Inr xi'"
    and "default_coord (DataArray da) 2 yi = Inr yi'"
  shows "linint2 K D (DataArray da) xo yo icycx xmsg meta xi yi =
     (case linint2_fo K d xi' yi' xo yo icycx m (dask_dtype d) of
        Inl e \<Rightarrow> Inl e
      | Inr fo \<Rightarrow>
          (case compute fo of
             Inl e \<Rightarrow> Inl e
           | Inr result \<Rightarrow>
               if meta then xr_DataArray result (attrs da) (dims da) (new_coords da xo yo)
               else Inr (xr_DataArray_default result)))"
  using assms by (simp add: linint2_def fi_dtype_def data_dtype_def)

lemma valid_call_D:
  assumes "valid_call K D da d xo yo icycx xmsg meta xi yi"
  obtains m xi' yi' where
    "chunked da d" "length (shape xo) = 1" "length (shape yo) = 1"
    "default_xmsg D (DataArray da) xmsg = Inr m"
    "default_coord (DataArray da) 1 xi = Inr xi'"
    "default_coord (DataArray da) 2 yi = Inr yi'"
    "grid_all (kernel_keeps (\<lambda>b. K xi' yi' b xo yo icycx m) (len yo) (len xo)) (whole_last2 d)"
    "meta \<Longrightarrow> kept_coords_fit da (fo_shape d (len yo) (len xo))"
  using assms unfolding valid_call_def
  by (auto split: sum.splits if_splits)

lemma linint2_blockwise_whole:
  assumes ch: "chunked da d"
    and xo: "length (shape xo) = 1" and yo: "length (shape yo) = 1"
    and m: "default_xmsg D (DataArray da) xmsg = Inr m"
    and xi: "default_coord (DataArray da) 1 xi = Inr xi'"
    and yi: "default_coord (DataArray da) 2 yi = Inr yi'"
  shows "linint2 K D (DataArray da) xo yo icycx xmsg meta xi yi =
     (case blockwise_whole (\<lambda>b. K xi' yi' b xo yo icycx m) d of
        Inl e \<Rightarrow> Inl e
      | Inr result \<Rightarrow>
          if meta then xr_DataArray result (attrs da) (dims da) (new_coords da xo yo)
          else Inr (xr_DataArray_default result))"
proof -
  from ch have d: "data da = Dask d" and n: "2 \<le> length (chunks d)"
    and fits: "grid_fits [] (chunks d) (blocks d)"
    by (simp_all add: chunked_def)
  have ne: "chunks d \<noteq> []" using n by auto
  show ?thesis
    unfolding linint2_chunked[OF d m xi yi] linint2_fo_eq[OF ne xo yo] sum.case
      compute_whole[OF n fits] ..
qed

lemma linint2_valid:
  assumes "valid_call K D da d xo yo icycx xmsg meta xi yi"
  obtains m xi' yi' res r where
    "default_xmsg D (DataArray da) xmsg = Inr m"
    "default_coord (DataArray da) 1 xi = Inr xi'"
    "default_coord (DataArray da) 2 yi = Inr yi'"
    "blockwise_whole (\<lambda>b. K xi' yi' b xo yo icycx m) d = Inr res"
    "shape res = fo_shape d (len yo) (len xo)"
    "linint2 K D (DataArray da) xo yo icycx xmsg meta xi yi = Inr r"
    "data r = Numpy res"
proof -
  from assms obtain m xi' yi' where v:
    "chunked da d" "length (shape xo) = 1" "length (shape yo) = 1"
    "default_xmsg D (DataArray da) xmsg = Inr m"
    "default_coord (DataArray da) 1 xi = Inr xi'"
    "default_coord (DataArray da) 2 yi = Inr yi'"
    "grid_all (kernel_keeps (\<lambda>b. K xi' yi' b xo yo icycx m) (len yo) (len xo)) (whole_last2 d)"
    "meta \<Longrightarrow> kept_coords_fit da (fo_shape d (len yo) (len xo))"
    by (rule valid_call_D) blast
  from v(1) have d: "data da = Dask d" and n: "2 \<le> length (chunks d)"
    and nd: "length (dims da) = length (chunks d)" and dist: "distinct (dims da)"
    and fits: "grid_fits [] (chunks d) (blocks d)"
    by (simp_all add: chunked_def)
  from assemble_fits[OF n fits v(7)]
  obtain res where res: "blockwise_whole (\<lambda>b. K xi' yi' b xo yo icycx m) d = Inr res"
    "shape res = fo_shape d (len yo) (len xo)" by blast
  note eq = linint2_blockwise_whole[OF v(1-6), of K icycx meta]
  show thesis
  proof (cases meta)
    case False
    then have "linint2 K D (DataArray da) xo yo icycx xmsg meta xi yi = Inr (xr_DataArray_default res)"
      unfolding eq res(1) by simp
    moreover have "data (xr_DataArray_default res) = Numpy res"
      by (simp add: xr_DataArray_default_def)
    ultimately show thesis using v(4-6) res that by blast
  next
    case True
    have l: "length (dims da) = length (shape res)" "2 \<le> length (dims da)"
      using fo_shape_nth(1)[OF n] nd n res(2) by simp_all
    have s: "shape res ! (length (dims da) - 2) = len yo" "shape res ! (length (dims da) - 1) = len xo"
      using fo_shape_nth(2,3)[OF n] nd res(2) by simp_all
    have k: "kept_coords_fit da (shape res)" using v(8)[OF True] res(2) by simp
    from xr_DataArray_relabel[OF dist l s v(2,3) k]
    obtain r where r: "xr_DataArray res (attrs da) (dims da) (new_coords da xo yo) = Inr r"
      "data r = Numpy res" by simp
    then have "linint2 K D (DataArray da) xo yo icycx xmsg meta xi yi = Inr r"
      unfolding eq res(1) using True by simp
    then show thesis using v(4-6) res r(2) that by blast
  qed
qed

lemma valid_call_unsplit:
  assumes "chunked da d" "unsplit d" "length (shape xo) = 1" "length (shape yo) = 1"
    and "default_xmsg D (DataArray da) xmsg = Inr m"
    and "default_coord (DataArray da) 1 xi = Inr xi'"
    and "default_coord (DataArray da) 2 yi = Inr yi'"
    and "grid_all (kernel_fits (\<lambda>b. K xi' yi' b xo yo icycx m) (len yo) (len xo)) (blocks d)"
    and "meta \<Longrightarrow> kept_coords_fit da (fo_shape d (len yo) (len xo))"
  shows "valid_call K D da d xo yo icycx xmsg meta xi yi"
proof -
  from assms(1) have n: "2 \<le> length (chunks d)" and fits: "grid_fits [] (chunks d) (blocks d)"
    by (simp_all add: chunked_def)
  have "grid_all (kernel_keeps f ny nx) (map_grid Inr g) = grid_all (kernel_fits f ny nx) g"
    for f :: "'a ndarray \<Rightarrow> error + 'a ndarray" and ny nx g
    by (induction g) (simp_all add: kernel_keeps_def list_all_iff)
  then show ?thesis
    using assms by (simp add: valid_call_def whole_last2_unsplit[OF n fits assms(2)])
qed


section \<open>The concrete calls, evaluated\<close>

lemmas ex_defs = ex_kernel_def ex_fill_def ex_block0_def ex_block1_def ex_data_def ex_time_def
  ex_lat_def ex_lon_def ex_fi_def ex_xo_def ex_yo_def ex_result_def


lemma concatenate3_eval:
  "grid_fits [] cs g \<Longrightarrow> concatenate2 0 g = r \<Longrightarrow> concatenate3 g = r"
  by (simp add: concatenate3_fits)


lemma ex_chunked: "chunked ex_fi ex_data"
  by (simp add: chunked_def ex_defs)

lemma ex_unsplit: "unsplit ex_data"
  by (simp add: unsplit_def last2_def ex_defs)

lemma ex_1d: "length (shape ex_xo) = 1" "length (shape ex_yo) = 1"
  by (simp_all add: ex_xo_def ex_yo_def)

lemma ex_xmsg: "default_xmsg ex_fill (DataArray ex_fi) None = Inr (- 99)"
  by (simp add: default_xmsg_def fi_dtype_def data_dtype_def ex_defs)

lemma ex_xi: "default_coord (DataArray ex_fi) 1 None = Inr ex_lon"
  by (simp add: default_coord_def getitem_neg_def coords_getitem_def ex_fi_def)

lemma ex_yi: "default_coord (DataArray ex_fi) 2 None = Inr ex_lat"
  by (simp add: default_coord_def getitem_neg_def coords_getitem_def ex_fi_def)

lemma ex_kernel_fits:
  "grid_all (kernel_fits (\<lambda>b. ex_kernel ex_lon ex_lat b ex_xo ex_yo False (- 99)) (len ex_yo) (len ex_xo))
     (blocks ex_data)"
  by (simp add: kernel_fits_def len_def ex_defs)

lemma ex_kept: "kept_coords_fit ex_fi (fo_shape ex_data (len ex_yo) (len ex_xo))"
  by (simp add: kept_coords_fit_def fo_shape_def coord_fits_def last2_def len_def ex_defs)

lemma ex_valid: "valid_call ex_kernel ex_fill ex_fi ex_data ex_xo ex_yo False None meta None None"
  using ex_chunked ex_unsplit ex_1d ex_xmsg ex_xi ex_yi ex_kernel_fits ex_kept
  by (rule valid_call_unsplit)

lemma ex_blockwise:
  "blockwise (\<lambda>b. ex_kernel ex_lon ex_lat b ex_xo ex_yo False (- 99)) ex_data = Inr ex_result"
proof -
  let ?r0 = "\<lparr>shape = [1, 1, 2], flat = [302922, 302922], dtype = ''float64''\<rparr> :: int ndarray"
  let ?r1 = "\<lparr>shape = [1, 1, 2], flat = [302958, 302958], dtype = ''float64''\<rparr> :: int ndarray"
  let ?g = "Grid [Grid [Grid [Blk ?r0]], Grid [Grid [Blk ?r1]]]"
  have g: "collect_grid (map_grid (\<lambda>b. ex_kernel ex_lon ex_lat b ex_xo ex_yo False (- 99))
      (blocks ex_data)) = Inr ?g"
    by (simp add: collect_last_def len_def numeral_2_eq_2 ex_defs)
  have c: "concatenate3 ?g = Inr ex_result"
    by (rule concatenate3_eval[where cs = "[[1, 1], [1], [2]]"])
      (simp_all add: np_concatenate_def same_off_axis_def numeral_2_eq_2 ex_result_def)
  have s: "single_block ?g = None" by simp
  show ?thesis
    unfolding blockwise_def assemble_def g sum.case s option.case by (rule c)
qed

lemma ex_blockwise_whole:
  "blockwise_whole (\<lambda>b. ex_kernel ex_lon ex_lat b ex_xo ex_yo False (- 99)) ex_data = Inr ex_result"
proof -
  have "2 \<le> length (chunks ex_data)" "grid_fits [] (chunks ex_data) (blocks ex_data)"
    using ex_chunked by (simp_all add: chunked_def)
  from blockwise_whole_unsplit[OF this ex_unsplit] ex_blockwise show ?thesis by simp
qed













lemma ex_blockwise_seven:
  "blockwise_whole (\<lambda>b. ex_kernel ex_lon ex_lat b ex_xo ex_yo False 7) ex_data
     = Inr \<lparr>shape = [2, 1, 2], flat = [303028, 303028, 303064, 303064], dtype = ''float64''\<rparr>"
proof -
  let ?r0 = "\<lparr>shape = [1, 1, 2], flat = [303028, 303028], dtype = ''float64''\<rparr> :: int ndarray"
  let ?r1 = "\<lparr>shape = [1, 1, 2], flat = [303064, 303064], dtype = ''float64''\<rparr> :: int ndarray"
  let ?g = "Grid [Grid [Grid [Blk ?r0]], Grid [Grid [Blk ?r1]]]"
  have n: "2 \<le> length (chunks ex_data)" "grid_fits [] (chunks ex_data) (blocks ex_data)"
    using ex_chunked by (simp_all add: chunked_def)
  have g: "collect_grid (map_grid (\<lambda>b. ex_kernel ex_lon ex_lat b ex_xo ex_yo False 7)
      (blocks ex_data)) = Inr ?g"
    by (simp add: collect_last_def len_def numeral_2_eq_2 ex_defs)
  have c: "concatenate3 ?g
      = Inr \<lparr>shape = [2, 1, 2], flat = [303028, 303028, 303064, 303064], dtype = ''float64''\<rparr>"
    by (rule concatenate3_eval[where cs = "[[1, 1], [1], [2]]"])
      (simp_all add: np_concatenate_def same_off_axis_def numeral_2_eq_2)
  have s: "single_block ?g = None" by simp
  show ?thesis
    unfolding blockwise_whole_unsplit[OF n ex_unsplit] blockwise_def assemble_def g sum.case s
      option.case
    by (rule c)
qed

lemma ex_table: "ex_fill (fi_dtype (DataArray ex_fi)) = Some (- 99)"
  by (simp add: fi_dtype_def data_dtype_def ex_defs)

lemma ex_coords:
  "map_of (coords ex_fi) (last (dims ex_fi)) = Some \<lparr>vdims = [''lon''], vvalues = ex_lon\<rparr>"
  "map_of (coords ex_fi) (dims ex_fi ! (length (dims ex_fi) - 2))
     = Some \<lparr>vdims = [''lat''], vvalues = ex_lat\<rparr>"
  by (simp_all add: ex_fi_def)

section \<open>Lemmas on the store\<close>

lemma keeps_refl: "keeps h h"
  by (simp add: keeps_def)

lemma keeps_trans: "keeps h h1 \<Longrightarrow> keeps h1 h2 \<Longrightarrow> keeps h h2"
  unfolding keeps_def by (intro conjI allI impI; (elim conjE)?; simp)

lemma keeps_new_pylist: "keeps h (snd (new_pylist h l))"
  by (simp add: keeps_def new_pylist_def)

lemma keeps_new_ndarray: "keeps h (snd (new_ndarray h a))"
  by (simp add: keeps_def new_ndarray_def)

lemma keeps_new_pydict: "keeps h (snd (new_pydict h c))"
  by (simp add: keeps_def new_pydict_def)

lemma keeps_new_dataarray: "keeps h (snd (new_dataarray h a))"
  by (simp add: keeps_def new_dataarray_def)

text \<open>The assignment of line 138 goes into the list just made, which the store before
  did not hold.\<close>

lemma keeps_assign_fresh:
  "keeps h (assign_last2 (snd (new_pylist h l)) (fst (new_pylist h l)) a b)"
  by (simp add: keeps_def new_pylist_def assign_last2_def)

lemma heap_fo_chunks_eq:
  "heap_fo_chunks h d xo yo =
     (next_pylist h,
      h\<lparr>pylists := (pylists h)(next_pylist h :=
            set_last2 (chunks d) (shape (ndarrays h yo)) (shape (ndarrays h xo))),
        next_pylist := Suc (next_pylist h)\<rparr>)"
  by (simp add: heap_fo_chunks_def new_pylist_def assign_last2_def)

lemma heap_compute_eq:
  "heap_compute K h d p xi yi xo yo icycx m dt =
     (case (case map_blocks (\<lambda>b. K xi yi b (ndarrays h xo) (ndarrays h yo) icycx m)
                   d (pylists h p) dt of
              Inl e \<Rightarrow> Inl e
            | Inr fo \<Rightarrow> compute fo) of
        Inl e \<Rightarrow> (Inl e, h)
      | Inr res \<Rightarrow> (Inr (next_ndarray h),
          h\<lparr>ndarrays := (ndarrays h)(next_ndarray h := res),
            next_ndarray := Suc (next_ndarray h)\<rparr>))"
  by (simp add: heap_compute_def new_ndarray_def split: sum.splits)

lemma heap_wrap_eq:
  "heap_wrap h da xo yo meta result =
     (if meta
      then
        (case xr_DataArray (ndarrays h result) (attrs da) (dims da)
                (new_coords da (ndarrays h xo) (ndarrays h yo)) of
           Inl e \<Rightarrow> (Inl e, snd (new_pydict h (new_coords da (ndarrays h xo) (ndarrays h yo))))
         | Inr out \<Rightarrow> (Inr (next_dataarray h),
             snd (new_dataarray
               (snd (new_pydict h (new_coords da (ndarrays h xo) (ndarrays h yo)))) out)))
      else (Inr (next_dataarray h),
            snd (new_dataarray h (xr_DataArray_default (ndarrays h result)))))"
  by (simp add: heap_wrap_def new_pydict_def new_dataarray_def split: sum.splits)

lemma keeps_heap_fo_chunks: "keeps h (snd (heap_fo_chunks h d xo yo))"
  by (simp add: heap_fo_chunks_eq keeps_def)

lemma keeps_heap_compute: "keeps h (snd (heap_compute K h d p xi yi xo yo icycx m dt))"
  by (simp add: heap_compute_eq keeps_def split: sum.splits)

lemma keeps_heap_wrap: "keeps h (snd (heap_wrap h da xo yo meta result))"
proof -
  have "keeps h (snd (new_dataarray (snd (new_pydict h c)) out))" for c out
    using keeps_new_pydict keeps_new_dataarray by (rule keeps_trans)
  then show ?thesis
    by (simp add: heap_wrap_eq keeps_new_pydict keeps_new_dataarray split: sum.splits)
qed

lemma outcome_heap_wrap:
  "outcome (heap_wrap h da xo yo meta result) =
     (if meta
      then xr_DataArray (ndarrays h result) (attrs da) (dims da)
             (new_coords da (ndarrays h xo) (ndarrays h yo))
      else Inr (xr_DataArray_default (ndarrays h result)))"
  by (simp add: heap_wrap_eq outcome_def new_dataarray_def new_pydict_def split: sum.splits)

lemma fresh_heap_wrap:
  "fst (heap_wrap h da xo yo meta result) = Inr r \<Longrightarrow>
   r = next_dataarray h \<and> next_dataarray (snd (heap_wrap h da xo yo meta result)) = Suc r"
  by (auto simp: heap_wrap_eq new_dataarray_def new_pydict_def split: sum.splits if_splits)

lemma linint2_heap_cases:
  obtains (raises) e where
      "linint2_heap K D h fi xo yo icycx xmsg meta xi yi = (Inl e, h)"
      "linint2 K D (deref h fi) (ndarrays h xo) (ndarrays h yo) icycx xmsg meta
         (map_option (ndarrays h) xi) (map_option (ndarrays h) yi) = Inl e"
  | (dask) da d m xi' yi' where
      "deref h fi = DataArray da" "data da = Dask d"
      "linint2_heap K D h fi xo yo icycx xmsg meta xi yi
         = heap_dask K h fi da d xo yo icycx m meta xi' yi'"
      "linint2 K D (deref h fi) (ndarrays h xo) (ndarrays h yo) icycx xmsg meta
         (map_option (ndarrays h) xi) (map_option (ndarrays h) yi)
       = (case (case linint2_fo K d xi' yi' (ndarrays h xo) (ndarrays h yo) icycx m
                          (fi_dtype (deref h fi)) of
            Inl e \<Rightarrow> Inl e | Inr fo \<Rightarrow> compute fo) of
            Inl e \<Rightarrow> Inl e
          | Inr result \<Rightarrow>
              if meta
              then xr_DataArray result (attrs da) (dims da)
                     (new_coords da (ndarrays h xo) (ndarrays h yo))
              else Inr (xr_DataArray_default result))"
proof (cases "default_xmsg D (deref h fi) xmsg")
  case (Inl e)
  then show ?thesis by (intro raises[of e]) (simp_all add: linint2_heap_def linint2_def)
next
  case m: (Inr m)
  show ?thesis
  proof (cases "default_coord (deref h fi) 1 (map_option (ndarrays h) xi)")
    case (Inl e)
    then show ?thesis using m by (intro raises[of e]) (simp_all add: linint2_heap_def linint2_def)
  next
    case xi: (Inr xi')
    show ?thesis
    proof (cases "default_coord (deref h fi) 2 (map_option (ndarrays h) yi)")
      case (Inl e)
      then show ?thesis using m xi
        by (intro raises[of e]) (simp_all add: linint2_heap_def linint2_def)
    next
      case yi: (Inr yi')
      show ?thesis
      proof (cases "deref h fi")
        case (NdArray a)
        then show ?thesis using m xi yi
          by (intro raises[of AttributeError]) (simp_all add: linint2_heap_def linint2_def)
      next
        case da: (DataArray da)
        show ?thesis
        proof (cases "data da")
          case (Numpy a)
          then show ?thesis using m xi yi da
            by (intro raises[of TypeError]) (simp_all add: linint2_heap_def linint2_def)
        next
          case (Dask d)
          then show ?thesis using m xi yi da
            by (intro dask[of da d m xi' yi'])
              (simp_all add: linint2_heap_def linint2_def split: sum.splits)
        qed
      qed
    qed
  qed
qed

lemma deref_heap_fo_chunks: "deref (snd (heap_fo_chunks h d xo yo)) fi = deref h fi"
  by (simp add: heap_fo_chunks_eq deref_def split: fi_ref.splits)

lemma heap_dask_eq:
  "heap_dask K h fi da d xo yo icycx m meta xi yi =
     (case (case linint2_fo K d xi yi (ndarrays h xo) (ndarrays h yo) icycx m
                      (fi_dtype (deref h fi)) of
            Inl e \<Rightarrow> Inl e | Inr fo \<Rightarrow> compute fo) of
        Inl e \<Rightarrow> (Inl e, snd (heap_fo_chunks h d xo yo))
      | Inr res \<Rightarrow>
          heap_wrap (snd (new_ndarray (snd (heap_fo_chunks h d xo yo)) res)) da xo yo meta
            (next_ndarray h))"
proof -
  have c: "heap_compute K (snd (heap_fo_chunks h d xo yo)) d (next_pylist h) xi yi xo yo icycx m dt =
     (case (case linint2_fo K d xi yi (ndarrays h xo) (ndarrays h yo) icycx m dt of
            Inl e \<Rightarrow> Inl e | Inr fo \<Rightarrow> compute fo) of
        Inl e \<Rightarrow> (Inl e, snd (heap_fo_chunks h d xo yo))
      | Inr res \<Rightarrow> (Inr (next_ndarray h), snd (new_ndarray (snd (heap_fo_chunks h d xo yo)) res)))"
    for dt
    by (simp add: heap_compute_eq heap_fo_chunks_eq linint2_fo_def new_ndarray_def
        split: sum.splits)
  have f: "fst (heap_fo_chunks h d xo yo) = next_pylist h" by (simp add: heap_fo_chunks_eq)
  show ?thesis
    unfolding heap_dask_def split_def Let_def f deref_heap_fo_chunks c
    by (simp split: sum.splits)
qed

lemma keeps_heap_dask: "keeps h (snd (heap_dask K h fi da d xo yo icycx m meta xi yi))"
proof (cases "(case linint2_fo K d xi yi (ndarrays h xo) (ndarrays h yo) icycx m
                      (fi_dtype (deref h fi)) of
            Inl e \<Rightarrow> Inl e | Inr fo \<Rightarrow> compute fo)")
  case (Inl e)
  then show ?thesis by (simp add: heap_dask_eq keeps_heap_fo_chunks)
next
  case (Inr res)
  have "keeps h (snd (new_ndarray (snd (heap_fo_chunks h d xo yo)) res))"
    using keeps_heap_fo_chunks keeps_new_ndarray by (rule keeps_trans)
  then have "keeps h (snd (heap_wrap (snd (new_ndarray (snd (heap_fo_chunks h d xo yo)) res))
      da xo yo meta (next_ndarray h)))"
    using keeps_heap_wrap by (rule keeps_trans)
  then show ?thesis by (simp add: heap_dask_eq Inr)
qed

lemma outcome_heap_dask:
  assumes "xo < next_ndarray h" "yo < next_ndarray h"
  shows "outcome (heap_dask K h fi da d xo yo icycx m meta xi yi) =
     (case (case linint2_fo K d xi yi (ndarrays h xo) (ndarrays h yo) icycx m
                      (fi_dtype (deref h fi)) of
            Inl e \<Rightarrow> Inl e | Inr fo \<Rightarrow> compute fo) of
        Inl e \<Rightarrow> Inl e
      | Inr result \<Rightarrow>
          if meta
          then xr_DataArray result (attrs da) (dims da)
                 (new_coords da (ndarrays h xo) (ndarrays h yo))
          else Inr (xr_DataArray_default result))"
proof (cases "(case linint2_fo K d xi yi (ndarrays h xo) (ndarrays h yo) icycx m
                      (fi_dtype (deref h fi)) of
            Inl e \<Rightarrow> Inl e | Inr fo \<Rightarrow> compute fo)")
  case (Inl e)
  then show ?thesis by (simp add: heap_dask_eq outcome_def)
next
  case (Inr res)
  let ?h = "snd (new_ndarray (snd (heap_fo_chunks h d xo yo)) res)"
  have "ndarrays ?h xo = ndarrays h xo" "ndarrays ?h yo = ndarrays h yo"
    "ndarrays ?h (next_ndarray h) = res"
    using assms by (simp_all add: new_ndarray_def heap_fo_chunks_eq)
  then show ?thesis by (simp add: heap_dask_eq Inr outcome_heap_wrap)
qed

lemma fresh_heap_dask:
  assumes "fst (heap_dask K h fi da d xo yo icycx m meta xi yi) = Inr r"
  shows "r = next_dataarray h"
    "next_dataarray (snd (heap_dask K h fi da d xo yo icycx m meta xi yi)) = Suc r"
proof -
  from assms obtain res where
    w: "fst (heap_wrap (snd (new_ndarray (snd (heap_fo_chunks h d xo yo)) res)) da xo yo meta
          (next_ndarray h)) = Inr r"
    and e: "heap_dask K h fi da d xo yo icycx m meta xi yi =
        heap_wrap (snd (new_ndarray (snd (heap_fo_chunks h d xo yo)) res)) da xo yo meta
          (next_ndarray h)"
    by (auto simp: heap_dask_eq split: sum.splits)
  have n: "next_dataarray (snd (new_ndarray (snd (heap_fo_chunks h d xo yo)) res)) = next_dataarray h"
    by (simp add: new_ndarray_def heap_fo_chunks_eq)
  from fresh_heap_wrap[OF w] n show "r = next_dataarray h"
    "next_dataarray (snd (heap_dask K h fi da d xo yo icycx m meta xi yi)) = Suc r"
    by (simp_all add: e)
qed

lemma linint2_heap_keeps:
  "keeps h (snd (linint2_heap K D h fi xo yo icycx xmsg meta xi yi))"
proof (cases rule: linint2_heap_cases[of K D h fi xo yo icycx xmsg meta xi yi])
  case (raises e)
  then show ?thesis by (simp add: keeps_refl)
next
  case (dask da d m xi' yi')
  then show ?thesis by (simp add: keeps_heap_dask)
qed

lemma linint2_heap_outcome:
  assumes "xo < next_ndarray h" "yo < next_ndarray h"
  shows "outcome (linint2_heap K D h fi xo yo icycx xmsg meta xi yi) =
         linint2 K D (deref h fi) (ndarrays h xo) (ndarrays h yo) icycx xmsg meta
           (map_option (ndarrays h) xi) (map_option (ndarrays h) yi)"
proof (cases rule: linint2_heap_cases[of K D h fi xo yo icycx xmsg meta xi yi])
  case (raises e)
  then show ?thesis by (simp add: outcome_def)
next
  case (dask da d m xi' yi')
  show ?thesis unfolding dask(3,4) using assms by (rule outcome_heap_dask)
qed

lemma linint2_heap_fresh:
  assumes "fst (linint2_heap K D h fi xo yo icycx xmsg meta xi yi) = Inr r"
  shows "r = next_dataarray h"
    "next_dataarray (snd (linint2_heap K D h fi xo yo icycx xmsg meta xi yi)) = Suc r"
proof -
  have "r = next_dataarray h \<and>
    next_dataarray (snd (linint2_heap K D h fi xo yo icycx xmsg meta xi yi)) = Suc r"
  proof (cases rule: linint2_heap_cases[of K D h fi xo yo icycx xmsg meta xi yi])
    case (raises e)
    then show ?thesis using assms by simp
  next
    case (dask da d m xi' yi')
    from assms have "fst (heap_dask K h fi da d xo yo icycx m meta xi' yi') = Inr r"
      by (simp add: dask(3))
    from fresh_heap_dask[OF this] show ?thesis by (simp add: dask(3))
  qed
  then show "r = next_dataarray h"
    "next_dataarray (snd (linint2_heap K D h fi xo yo icycx xmsg meta xi yi)) = Suc r"
    by simp_all
qed

lemma keeps_args:
  assumes "keeps h h'" "args_allocated h fi xo yo xi yi"
  shows "deref h' fi = deref h fi" "ndarrays h' xo = ndarrays h xo" "ndarrays h' yo = ndarrays h yo"
    "map_option (ndarrays h') xi = map_option (ndarrays h) xi"
    "map_option (ndarrays h') yi = map_option (ndarrays h) yi"
    "args_allocated h' fi xo yo xi yi"
  using assms
  by (auto simp: keeps_def args_allocated_def allocated_def deref_def
      split: fi_ref.splits option.splits)

lemma ex_call:
  obtains r where
    "linint2 ex_kernel ex_fill (DataArray ex_fi) ex_xo ex_yo False None meta None None = Inr r"
    "data r = Numpy ex_result"
proof -
  from ex_valid[of meta] obtain m xi' yi' res r where
    "default_xmsg ex_fill (DataArray ex_fi) None = Inr m"
    "default_coord (DataArray ex_fi) 1 None = Inr xi'"
    "default_coord (DataArray ex_fi) 2 None = Inr yi'"
    "blockwise_whole (\<lambda>b. ex_kernel xi' yi' b ex_xo ex_yo False m) ex_data = Inr res"
    "shape res = fo_shape ex_data (len ex_yo) (len ex_xo)"
    "linint2 ex_kernel ex_fill (DataArray ex_fi) ex_xo ex_yo False None meta None None = Inr r"
    "data r = Numpy res"
    by (rule linint2_valid)
  then show thesis using ex_xmsg ex_xi ex_yi ex_blockwise_whole that by simp
qed

lemma ex_heap_args: "args_allocated ex_heap (DaRef 0) 0 1 None None"
  by (simp add: args_allocated_def allocated_def ex_heap_def)

lemma ex_heap_values:
  "deref ex_heap (DaRef 0) = DataArray ex_fi" "ndarrays ex_heap 0 = ex_xo" "ndarrays ex_heap 1 = ex_yo"
  "ndarrays ex_heap (Suc 0) = ex_yo"
  by (simp_all add: deref_def ex_heap_def)

section \<open>The claims\<close>

text \<open>
  C1. The package is said to provide \<open>linint2\<close>, \<open>eofunc_eofs\<close>, \<open>eofunc_pcs\<close> and the
  legacy names \<open>eofunc\<close> and \<open>eofunc_ts\<close>, so that importing each name from it succeeds;
  the test module imports the four EOF names in its line 7. The module binds only
  \<open>linint2\<close>: that import succeeds and each of the other four is an ImportError.
\<close>

theorem import_eofunc_fails:
  "import_from ''linint2'' = Inr ''linint2'' \<and>
   import_from ''eofunc_eofs'' = Inl ImportError \<and>
   import_from ''eofunc_pcs'' = Inl ImportError \<and>
   import_from ''eofunc'' = Inl ImportError \<and>
   import_from ''eofunc_ts'' = Inl ImportError"
  by (simp add: import_from_def comp_namespace_def module_dunders_def comp_submodules_def)

text \<open>
  C2. With \<open>meta=True\<close>, for a chunked DataArray \<open>fi\<close> that has coordinates on its last
  two dimensions, whatever \<open>linint2\<close> returns has the attributes of \<open>fi\<close>, its dimension
  names in their order, and its coordinate names; every coordinate not named as one of
  the last two dimensions is the one of \<open>fi\<close>, the coordinate of the last dimension is
  \<open>xo\<close> and that of the last but one is \<open>yo\<close>. And a call within the contract returns.
\<close>

theorem linint2_preserves_metadata:
  assumes ch: "chunked da d"
    and cx: "(last (dims da), vx) \<in> set (coords da)"
    and cy: "(dims da ! (length (dims da) - 2), vy) \<in> set (coords da)"
  shows "(\<forall>r. linint2 K D (DataArray da) xo yo icycx xmsg True xi yi = Inr r \<longrightarrow>
            attrs r = attrs da \<and> dims r = dims da \<and>
            map fst (coords r) = map fst (coords da) \<and>
            (\<forall>k v. (k, v) \<in> set (coords da) \<and> k \<notin> set (last2 (dims da))
                \<longrightarrow> map_of (coords r) k = Some v) \<and>
            map_of (coords r) (last (dims da))
              = Some \<lparr>vdims = [last (dims da)], vvalues = xo\<rparr> \<and>
            map_of (coords r) (dims da ! (length (dims da) - 2))
              = Some \<lparr>vdims = [dims da ! (length (dims da) - 2)], vvalues = yo\<rparr>) \<and>
         (valid_call K D da d xo yo icycx xmsg True xi yi \<longrightarrow>
            (\<exists>r. linint2 K D (DataArray da) xo yo icycx xmsg True xi yi = Inr r))"
proof (intro conjI allI impI)
  fix r assume r: "linint2 K D (DataArray da) xo yo icycx xmsg True xi yi = Inr r"
  let ?f = "\<lambda>k v. if k \<notin> set (last2 (dims da)) then v
              else \<lparr>vdims = [k], vvalues = (if k = last (dims da) then xo else yo)\<rparr>"
  from ch have n: "2 \<le> length (dims da)" and dd: "distinct (dims da)"
    and dc: "distinct (map fst (coords da))"
    by (simp_all add: chunked_def)
  have l2: "last2 (dims da) = [dims da ! (length (dims da) - 2), last (dims da)]"
    using n by (rule last2_two)
  have ne: "dims da ! (length (dims da) - 2) \<noteq> last (dims da)"
  proof -
    have "dims da \<noteq> []" using n by auto
    then have "last (dims da) = dims da ! (length (dims da) - 1)" by (rule last_conv_nth)
    moreover have "dims da ! (length (dims da) - 2) \<noteq> dims da ! (length (dims da) - 1)"
      using n dd by (simp add: nth_eq_iff_index_eq)
    ultimately show ?thesis by simp
  qed
  show "attrs r = attrs da" "dims r = dims da" using linint2_meta_D(1,2)[OF r] .
  have cr: "coords r = map (\<lambda>(k, v). (k, ?f k v)) (coords da)"
    using linint2_meta_D(3)[OF r] .
  show "map fst (coords r) = map fst (coords da)"
    unfolding cr by (induction "coords da") auto
  show "map_of (coords r) k = Some v"
    if "(k, v) \<in> set (coords da) \<and> k \<notin> set (last2 (dims da))" for k v
    unfolding cr using map_of_relabel[OF dc, of k v ?f] that by simp
  show "map_of (coords r) (last (dims da)) = Some \<lparr>vdims = [last (dims da)], vvalues = xo\<rparr>"
    unfolding cr using map_of_relabel[OF dc cx, of ?f] l2 by simp
  show "map_of (coords r) (dims da ! (length (dims da) - 2))
      = Some \<lparr>vdims = [dims da ! (length (dims da) - 2)], vvalues = yo\<rparr>"
    unfolding cr using map_of_relabel[OF dc cy, of ?f] l2 ne by simp
next
  assume "valid_call K D da d xo yo icycx xmsg True xi yi"
  then show "\<exists>r. linint2 K D (DataArray da) xo yo icycx xmsg True xi yi = Inr r"
    by (rule linint2_valid) blast
qed

theorem linint2_preserves_metadata_witness:
  "chunked ex_fi ex_data \<and>
   (last (dims ex_fi), \<lparr>vdims = [''lon''], vvalues = ex_lon\<rparr>) \<in> set (coords ex_fi) \<and>
   (dims ex_fi ! (length (dims ex_fi) - 2), \<lparr>vdims = [''lat''], vvalues = ex_lat\<rparr>)
      \<in> set (coords ex_fi) \<and>
   valid_call ex_kernel ex_fill ex_fi ex_data ex_xo ex_yo False None True None None \<and>
   (\<exists>r. linint2 ex_kernel ex_fill (DataArray ex_fi) ex_xo ex_yo False None True None None = Inr r \<and>
        attrs r = [(''units'', ''K'')] \<and> dims r = [''time'', ''lat'', ''lon''] \<and>
        map fst (coords r) = [''time'', ''lat'', ''lon''] \<and>
        map_of (coords r) ''time'' = Some ex_time \<and>
        map_of (coords r) ''lon'' = Some \<lparr>vdims = [''lon''], vvalues = ex_xo\<rparr> \<and>
        map_of (coords r) ''lat'' = Some \<lparr>vdims = [''lat''], vvalues = ex_yo\<rparr>)"
proof -
  have hx: "(last (dims ex_fi), \<lparr>vdims = [''lon''], vvalues = ex_lon\<rparr>) \<in> set (coords ex_fi)"
    by (simp add: ex_fi_def)
  have hy: "(dims ex_fi ! (length (dims ex_fi) - 2), \<lparr>vdims = [''lat''], vvalues = ex_lat\<rparr>)
      \<in> set (coords ex_fi)"
    by (simp add: ex_fi_def)
  have ht: "(''time'', ex_time) \<in> set (coords ex_fi) \<and> ''time'' \<notin> set (last2 (dims ex_fi))"
    by (simp add: ex_fi_def last2_def)
  note t = linint2_preserves_metadata[OF ex_chunked hx hy, of ex_kernel ex_fill ex_xo ex_yo
      False None None None]
  note v = ex_valid[of True]
  from t[THEN conjunct2, rule_format, OF v]
  obtain r where r: "linint2 ex_kernel ex_fill (DataArray ex_fi) ex_xo ex_yo False None True None None = Inr r"
    ..
  note p = t[THEN conjunct1, rule_format, OF r]
  have 1: "attrs r = [(''units'', ''K'')]"
    using p[THEN conjunct1] by (simp add: ex_fi_def)
  have 2: "dims r = [''time'', ''lat'', ''lon'']"
    using p[THEN conjunct2, THEN conjunct1] by (simp add: ex_fi_def)
  have 3: "map fst (coords r) = [''time'', ''lat'', ''lon'']"
    using p[THEN conjunct2, THEN conjunct2, THEN conjunct1] by (simp add: ex_fi_def)
  have 4: "map_of (coords r) ''time'' = Some ex_time"
    using p[THEN conjunct2, THEN conjunct2, THEN conjunct2, THEN conjunct1, rule_format, OF ht] .
  have 5: "map_of (coords r) ''lon'' = Some \<lparr>vdims = [''lon''], vvalues = ex_xo\<rparr>"
    using p[THEN conjunct2, THEN conjunct2, THEN conjunct2, THEN conjunct2, THEN conjunct1]
    by (simp add: ex_fi_def)
  have 6: "map_of (coords r) ''lat'' = Some \<lparr>vdims = [''lat''], vvalues = ex_yo\<rparr>"
    using p[THEN conjunct2, THEN conjunct2, THEN conjunct2, THEN conjunct2, THEN conjunct2]
    by (simp add: ex_fi_def)
  show ?thesis
    by (intro conjI exI[of _ r]) (rule ex_chunked hx hy v r 1 2 3 4 5 6)+
qed






text \<open>
  C5. \<open>linint2\<close> is said to return a DataArray for every input and either value of
  \<open>meta\<close>, and its docstring takes \<open>fi\<close> as a DataArray or a numpy array. On a numpy
  array the call is an AttributeError for both values of \<open>meta\<close>, whatever the other
  arguments are, here with \<open>xmsg\<close> given and on the concrete block with every default.
\<close>

theorem linint2_ndarray_raises:
  "linint2 K D (NdArray a) xo yo icycx (Some m) True xi yi = Inl AttributeError \<and>
   linint2 K D (NdArray a) xo yo icycx (Some m) False xi yi = Inl AttributeError \<and>
   linint2 ex_kernel ex_fill (NdArray ex_block0) ex_xo ex_yo False None False None None
     = Inl AttributeError"
  by (simp add: linint2_ndarray default_xmsg_def ex_fill_def ex_block0_def fi_dtype_def)

text \<open>
  C6. \<open>linint2\<close> keeps no state and is deterministic, the native routine being a
  function. The outcome of a call (the exception, or the DataArray returned) is a
  function of the routine, the fill table and the values of the arguments alone; a
  second call with the same arguments, in the store the first call left, has the same
  outcome; and so have two calls in any two stores that agree on the arguments.
\<close>

theorem linint2_stateless_deterministic:
  assumes "args_allocated h fi xo yo xi yi"
  shows "outcome (linint2_heap K D h fi xo yo icycx xmsg meta xi yi)
           = linint2 K D (deref h fi) (ndarrays h xo) (ndarrays h yo) icycx xmsg meta
               (map_option (ndarrays h) xi) (map_option (ndarrays h) yi) \<and>
         outcome (linint2_heap K D (snd (linint2_heap K D h fi xo yo icycx xmsg meta xi yi))
                    fi xo yo icycx xmsg meta xi yi)
           = outcome (linint2_heap K D h fi xo yo icycx xmsg meta xi yi) \<and>
         (args_allocated g fi' xo' yo' xi' yi' \<and> deref g fi' = deref h fi \<and>
          ndarrays g xo' = ndarrays h xo \<and> ndarrays g yo' = ndarrays h yo \<and>
          map_option (ndarrays g) xi' = map_option (ndarrays h) xi \<and>
          map_option (ndarrays g) yi' = map_option (ndarrays h) yi
          \<longrightarrow> outcome (linint2_heap K D g fi' xo' yo' icycx xmsg meta xi' yi')
                = outcome (linint2_heap K D h fi xo yo icycx xmsg meta xi yi))"
proof (intro conjI impI)
  let ?h' = "snd (linint2_heap K D h fi xo yo icycx xmsg meta xi yi)"
  from assms have b: "xo < next_ndarray h" "yo < next_ndarray h"
    by (simp_all add: args_allocated_def)
  show 1: "outcome (linint2_heap K D h fi xo yo icycx xmsg meta xi yi)
           = linint2 K D (deref h fi) (ndarrays h xo) (ndarrays h yo) icycx xmsg meta
               (map_option (ndarrays h) xi) (map_option (ndarrays h) yi)"
    using b by (rule linint2_heap_outcome)
  have k: "keeps h ?h'" by (rule linint2_heap_keeps)
  note a = keeps_args[OF k assms]
  from a(6) have b': "xo < next_ndarray ?h'" "yo < next_ndarray ?h'"
    by (simp_all add: args_allocated_def)
  show "outcome (linint2_heap K D ?h' fi xo yo icycx xmsg meta xi yi)
           = outcome (linint2_heap K D h fi xo yo icycx xmsg meta xi yi)"
    unfolding 1 linint2_heap_outcome[OF b'] a(1-5) ..
  assume g: "args_allocated g fi' xo' yo' xi' yi' \<and> deref g fi' = deref h fi \<and>
          ndarrays g xo' = ndarrays h xo \<and> ndarrays g yo' = ndarrays h yo \<and>
          map_option (ndarrays g) xi' = map_option (ndarrays h) xi \<and>
          map_option (ndarrays g) yi' = map_option (ndarrays h) yi"
  then have bg: "xo' < next_ndarray g" "yo' < next_ndarray g"
    by (simp_all add: args_allocated_def)
  show "outcome (linint2_heap K D g fi' xo' yo' icycx xmsg meta xi' yi')
                = outcome (linint2_heap K D h fi xo yo icycx xmsg meta xi yi)"
    unfolding 1 linint2_heap_outcome[OF bg] using g by simp
qed

theorem linint2_stateless_deterministic_witness:
  "args_allocated ex_heap (DaRef 0) 0 1 None None \<and>
   outcome (linint2_heap ex_kernel ex_fill
              (snd (linint2_heap ex_kernel ex_fill ex_heap (DaRef 0) 0 1 False None True None None))
              (DaRef 0) 0 1 False None True None None)
     = outcome (linint2_heap ex_kernel ex_fill ex_heap (DaRef 0) 0 1 False None True None None) \<and>
   (\<exists>r. outcome (linint2_heap ex_kernel ex_fill ex_heap (DaRef 0) 0 1 False None True None None) = Inr r \<and>
        data r = Numpy ex_result)"
proof -
  note t = linint2_stateless_deterministic[OF ex_heap_args, of ex_kernel ex_fill False None True]
  obtain r where r: "linint2 ex_kernel ex_fill (DataArray ex_fi) ex_xo ex_yo False None True None None = Inr r"
    "data r = Numpy ex_result"
    by (rule ex_call)
  have 1: "outcome (linint2_heap ex_kernel ex_fill ex_heap (DaRef 0) 0 1 False None True None None) = Inr r"
    using t[THEN conjunct1] r(1) by (simp add: ex_heap_values)
  show ?thesis
    by (intro conjI exI[of _ r]) (rule ex_heap_args t[THEN conjunct2, THEN conjunct1] 1 r(2))+
qed

text \<open>
  C7. \<open>linint2\<close> needs a chunked DataArray. On a numpy array it raises: AttributeError
  (no \<open>coords\<close>, no \<open>chunks\<close>), unless the fill table already has no entry for the dtype.
  On a DataArray whose data is a numpy array it raises: \<open>fi.chunks\<close> is \<open>None\<close>, and
  \<open>list(None)\<close> is a TypeError, unless a default raised before that line.
\<close>

theorem linint2_requires_chunked_dataarray:
  "linint2 K D (NdArray a) xo yo icycx xmsg meta xi yi =
     (case default_xmsg D (NdArray a) xmsg of Inl e \<Rightarrow> Inl e | Inr m \<Rightarrow> Inl AttributeError) \<and>
   linint2 K D (NdArray a) xo yo icycx (Some m) meta xi yi = Inl AttributeError \<and>
   linint2 K D (DataArray (da\<lparr>data := Numpy a\<rparr>)) xo yo icycx xmsg meta xi yi =
     (case default_xmsg D (DataArray (da\<lparr>data := Numpy a\<rparr>)) xmsg of Inl e \<Rightarrow> Inl e | Inr m \<Rightarrow>
      (case default_coord (DataArray (da\<lparr>data := Numpy a\<rparr>)) 1 xi of Inl e \<Rightarrow> Inl e | Inr x \<Rightarrow>
       (case default_coord (DataArray (da\<lparr>data := Numpy a\<rparr>)) 2 yi of Inl e \<Rightarrow> Inl e | Inr y \<Rightarrow>
          Inl TypeError))) \<and>
   linint2 K D (DataArray (da\<lparr>data := Numpy a\<rparr>)) xo yo icycx (Some m) meta (Some x) (Some y)
     = Inl TypeError \<and>
   isl (linint2 K D (NdArray a) xo yo icycx xmsg meta xi yi) \<and>
   isl (linint2 K D (DataArray (da\<lparr>data := Numpy a\<rparr>)) xo yo icycx xmsg meta xi yi)"
proof -
  have 1: "linint2 K D (NdArray a) xo yo icycx (Some m) meta xi yi = Inl AttributeError"
    by (simp add: linint2_ndarray default_xmsg_Some)
  have 2: "linint2 K D (DataArray (da\<lparr>data := Numpy a\<rparr>)) xo yo icycx (Some m) meta (Some x) (Some y)
     = Inl TypeError"
    by (simp add: linint2_unchunked default_xmsg_Some default_coord_Some)
  have 3: "isl (linint2 K D (NdArray a) xo yo icycx xmsg meta xi yi)"
    by (simp only: linint2_ndarray isl_case_sum)
  have 4: "isl (linint2 K D (DataArray (da\<lparr>data := Numpy a\<rparr>)) xo yo icycx xmsg meta xi yi)"
    unfolding linint2_unchunked by (simp split: sum.splits)
  show ?thesis
    by (intro conjI) (rule linint2_ndarray 1 linint2_unchunked 2 3 4)+
qed

text \<open>
  C8. The defaults. With \<open>xmsg\<close> left out the call is the call with the fill table's
  entry for the dtype of \<open>fi\<close>; with \<open>xi\<close> left out it is the call with the values of
  the coordinate of the last dimension of \<open>fi\<close>; with \<open>yi\<close> left out it is the call with
  the values of the coordinate of the last dimension but one. And these are the values
  the native routine receives: on a chunked DataArray with these coordinates and a
  dtype in the fill table, the call is the wrapping of the native routine applied
  blockwise with each of \<open>xi\<close>, \<open>yi\<close> and \<open>xmsg\<close> as passed, or else the coordinate
  values and the table's entry.
\<close>

theorem linint2_defaults:
  "(D (fi_dtype fi) = Some m \<longrightarrow>
      linint2 K D fi xo yo icycx None meta xi yi = linint2 K D fi xo yo icycx (Some m) meta xi yi) \<and>
   (dims da \<noteq> [] \<and> map_of (coords da) (last (dims da)) = Some v \<longrightarrow>
      linint2 K D (DataArray da) xo yo icycx xmsg meta None yi
        = linint2 K D (DataArray da) xo yo icycx xmsg meta (Some (vvalues v)) yi) \<and>
   (2 \<le> length (dims da) \<and> map_of (coords da) (dims da ! (length (dims da) - 2)) = Some w \<longrightarrow>
      linint2 K D (DataArray da) xo yo icycx xmsg meta xi None
        = linint2 K D (DataArray da) xo yo icycx xmsg meta xi (Some (vvalues w))) \<and>
   (chunked da d \<and> length (shape xo) = 1 \<and> length (shape yo) = 1 \<and>
    D (fi_dtype (DataArray da)) = Some m \<and>
    map_of (coords da) (last (dims da)) = Some v \<and>
    map_of (coords da) (dims da ! (length (dims da) - 2)) = Some w \<longrightarrow>
      linint2 K D (DataArray da) xo yo icycx xmsg meta xi yi =
        (case blockwise_whole
                (\<lambda>b. K (case xi of None \<Rightarrow> vvalues v | Some a \<Rightarrow> a)
                       (case yi of None \<Rightarrow> vvalues w | Some a \<Rightarrow> a)
                       b xo yo icycx
                       (case xmsg of None \<Rightarrow> m | Some t \<Rightarrow> t)) d of
           Inl e \<Rightarrow> Inl e
         | Inr result \<Rightarrow>
             if meta then xr_DataArray result (attrs da) (dims da) (new_coords da xo yo)
             else Inr (xr_DataArray_default result)))"
proof (intro conjI impI)
  assume "D (fi_dtype fi) = Some m"
  then have "default_xmsg D fi None = default_xmsg D fi (Some m)"
    by (rule default_xmsg_table)
  then show "linint2 K D fi xo yo icycx None meta xi yi = linint2 K D fi xo yo icycx (Some m) meta xi yi"
    unfolding linint2_def by (simp only:)
next
  assume "dims da \<noteq> [] \<and> map_of (coords da) (last (dims da)) = Some v"
  then have "default_coord (DataArray da) 1 None = default_coord (DataArray da) 1 (Some (vvalues v))"
    using default_coord_last[of da v] by blast
  then show "linint2 K D (DataArray da) xo yo icycx xmsg meta None yi
        = linint2 K D (DataArray da) xo yo icycx xmsg meta (Some (vvalues v)) yi"
    unfolding linint2_def by (simp only:)
next
  assume "2 \<le> length (dims da) \<and> map_of (coords da) (dims da ! (length (dims da) - 2)) = Some w"
  then have "default_coord (DataArray da) 2 None = default_coord (DataArray da) 2 (Some (vvalues w))"
    using default_coord_last_but_one[of da w] by blast
  then show "linint2 K D (DataArray da) xo yo icycx xmsg meta xi None
        = linint2 K D (DataArray da) xo yo icycx xmsg meta xi (Some (vvalues w))"
    unfolding linint2_def by (simp only:)
next
  assume h: "chunked da d \<and> length (shape xo) = 1 \<and> length (shape yo) = 1 \<and>
    D (fi_dtype (DataArray da)) = Some m \<and>
    map_of (coords da) (last (dims da)) = Some v \<and>
    map_of (coords da) (dims da ! (length (dims da) - 2)) = Some w"
  then have ch: "chunked da d" and xo: "length (shape xo) = 1" and yo: "length (shape yo) = 1"
    and tm: "D (fi_dtype (DataArray da)) = Some m"
    and cv: "map_of (coords da) (last (dims da)) = Some v"
    and cw: "map_of (coords da) (dims da ! (length (dims da) - 2)) = Some w"
    by simp_all
  from ch have n: "2 \<le> length (dims da)" by (simp add: chunked_def)
  then have ne: "dims da \<noteq> []" by auto
  have 1: "default_xmsg D (DataArray da) xmsg = Inr (case xmsg of None \<Rightarrow> m | Some t \<Rightarrow> t)"
  proof (cases xmsg)
    case None
    then show ?thesis using default_xmsg_table[of D "DataArray da" m] tm
      by (simp add: default_xmsg_Some)
  next
    case (Some t)
    then show ?thesis by (simp add: default_xmsg_Some)
  qed
  have 2: "default_coord (DataArray da) 1 xi = Inr (case xi of None \<Rightarrow> vvalues v | Some a \<Rightarrow> a)"
  proof (cases xi)
    case None
    then show ?thesis using default_coord_last[of da v] ne cv by (simp add: default_coord_Some)
  next
    case (Some a)
    then show ?thesis by (simp add: default_coord_Some)
  qed
  have 3: "default_coord (DataArray da) 2 yi = Inr (case yi of None \<Rightarrow> vvalues w | Some a \<Rightarrow> a)"
  proof (cases yi)
    case None
    then show ?thesis using default_coord_last_but_one[of da w] n cw
      by (simp add: default_coord_Some)
  next
    case (Some a)
    then show ?thesis by (simp add: default_coord_Some)
  qed
  show "linint2 K D (DataArray da) xo yo icycx xmsg meta xi yi =
        (case blockwise_whole
                (\<lambda>b. K (case xi of None \<Rightarrow> vvalues v | Some a \<Rightarrow> a)
                       (case yi of None \<Rightarrow> vvalues w | Some a \<Rightarrow> a)
                       b xo yo icycx
                       (case xmsg of None \<Rightarrow> m | Some t \<Rightarrow> t)) d of
           Inl e \<Rightarrow> Inl e
         | Inr result \<Rightarrow>
             if meta then xr_DataArray result (attrs da) (dims da) (new_coords da xo yo)
             else Inr (xr_DataArray_default result))"
    using ch xo yo 1 2 3 by (rule linint2_blockwise_whole)
qed

theorem linint2_defaults_witness:
  "chunked ex_fi ex_data \<and> length (shape ex_xo) = 1 \<and> length (shape ex_yo) = 1 \<and>
   ex_fill (fi_dtype (DataArray ex_fi)) = Some (- 99) \<and>
   dims ex_fi \<noteq> [] \<and>
   map_of (coords ex_fi) (last (dims ex_fi)) = Some \<lparr>vdims = [''lon''], vvalues = ex_lon\<rparr> \<and>
   2 \<le> length (dims ex_fi) \<and>
   map_of (coords ex_fi) (dims ex_fi ! (length (dims ex_fi) - 2))
     = Some \<lparr>vdims = [''lat''], vvalues = ex_lat\<rparr> \<and>
   linint2 ex_kernel ex_fill (DataArray ex_fi) ex_xo ex_yo False None True None None
     = linint2 ex_kernel ex_fill (DataArray ex_fi) ex_xo ex_yo False (Some (- 99)) True
         (Some ex_lon) (Some ex_lat) \<and>
   map_sum id data
     (linint2 ex_kernel ex_fill (DataArray ex_fi) ex_xo ex_yo False None False None None)
     = Inr (Numpy \<lparr>shape = [2, 1, 2], flat = [302922, 302922, 302958, 302958],
                   dtype = ''float64''\<rparr>) \<and>
   map_sum id data
     (linint2 ex_kernel ex_fill (DataArray ex_fi) ex_xo ex_yo False (Some 7) False None None)
     = Inr (Numpy \<lparr>shape = [2, 1, 2], flat = [303028, 303028, 303064, 303064],
                   dtype = ''float64''\<rparr>)"
proof -
  have h2: "dims ex_fi \<noteq> []" and h3: "2 \<le> length (dims ex_fi)"
    by (simp_all add: ex_fi_def)
  note d = linint2_defaults[where D = ex_fill and K = ex_kernel and da = ex_fi
      and xo = ex_xo and yo = ex_yo and icycx = False and m = "- 99"
      and fi = "DataArray ex_fi" and v = "\<lparr>vdims = [''lon''], vvalues = ex_lon\<rparr>"
      and w = "\<lparr>vdims = [''lat''], vvalues = ex_lat\<rparr>" and d = ex_data]
  have "linint2 ex_kernel ex_fill (DataArray ex_fi) ex_xo ex_yo False None True None None
      = linint2 ex_kernel ex_fill (DataArray ex_fi) ex_xo ex_yo False (Some (- 99)) True None None"
    using d[where xi = None and yi = None and meta = True, THEN conjunct1] ex_table by blast
  also have "\<dots> = linint2 ex_kernel ex_fill (DataArray ex_fi) ex_xo ex_yo False (Some (- 99)) True
      (Some ex_lon) None"
    using d[where xmsg = "Some (- 99)" and yi = None and meta = True,
        THEN conjunct2, THEN conjunct1] h2 ex_coords(1) by simp
  also have "\<dots> = linint2 ex_kernel ex_fill (DataArray ex_fi) ex_xo ex_yo False (Some (- 99)) True
      (Some ex_lon) (Some ex_lat)"
    using d[where xmsg = "Some (- 99)" and xi = "Some ex_lon" and meta = True,
        THEN conjunct2, THEN conjunct2, THEN conjunct1] h3 ex_coords(2) by simp
  finally have e: "linint2 ex_kernel ex_fill (DataArray ex_fi) ex_xo ex_yo False None True None None
     = linint2 ex_kernel ex_fill (DataArray ex_fi) ex_xo ex_yo False (Some (- 99)) True
         (Some ex_lon) (Some ex_lat)" .
  have hyp: "chunked ex_fi ex_data \<and> length (shape ex_xo) = 1 \<and> length (shape ex_yo) = 1 \<and>
    ex_fill (fi_dtype (DataArray ex_fi)) = Some (- 99) \<and>
    map_of (coords ex_fi) (last (dims ex_fi)) = Some \<lparr>vdims = [''lon''], vvalues = ex_lon\<rparr> \<and>
    map_of (coords ex_fi) (dims ex_fi ! (length (dims ex_fi) - 2))
      = Some \<lparr>vdims = [''lat''], vvalues = ex_lat\<rparr>"
    by (intro conjI) (rule ex_chunked ex_1d ex_table ex_coords)+
  have "linint2 ex_kernel ex_fill (DataArray ex_fi) ex_xo ex_yo False None False None None
      = Inr (xr_DataArray_default ex_result)"
    using d[where xmsg = None and xi = None and yi = None and meta = False,
        THEN conjunct2, THEN conjunct2, THEN conjunct2, rule_format, OF hyp]
    by (simp add: ex_blockwise_whole)
  then have r1: "map_sum id data
     (linint2 ex_kernel ex_fill (DataArray ex_fi) ex_xo ex_yo False None False None None)
     = Inr (Numpy \<lparr>shape = [2, 1, 2], flat = [302922, 302922, 302958, 302958],
                   dtype = ''float64''\<rparr>)"
    by (simp add: xr_DataArray_default_def ex_result_def)
  have "linint2 ex_kernel ex_fill (DataArray ex_fi) ex_xo ex_yo False (Some 7) False None None
      = Inr (xr_DataArray_default \<lparr>shape = [2, 1, 2], flat = [303028, 303028, 303064, 303064],
                   dtype = ''float64''\<rparr>)"
    using d[where xmsg = "Some 7" and xi = None and yi = None and meta = False,
        THEN conjunct2, THEN conjunct2, THEN conjunct2, rule_format, OF hyp]
    by (simp add: ex_blockwise_seven)
  then have r2: "map_sum id data
     (linint2 ex_kernel ex_fill (DataArray ex_fi) ex_xo ex_yo False (Some 7) False None None)
     = Inr (Numpy \<lparr>shape = [2, 1, 2], flat = [303028, 303028, 303064, 303064],
                   dtype = ''float64''\<rparr>)"
    by (simp add: xr_DataArray_default_def)
  show ?thesis
    by (intro conjI) (rule ex_chunked ex_1d ex_table h2 h3 ex_coords e r1 r2)+
qed

text \<open>
  C9. \<open>linint2\<close> does not modify its arguments. Whatever the call returns, every object
  the store held before is in the store after, as it was; so \<open>fi\<close> (its data,
  dimensions, coordinates and attributes), \<open>xo\<close>, \<open>yo\<close>, \<open>xi\<close> and \<open>yi\<close> are unchanged;
  and the result is at an address that was not in use before the call.
\<close>

theorem linint2_leaves_arguments:
  assumes "args_allocated h fi xo yo xi yi"
    and "linint2_heap K D h fi xo yo icycx xmsg meta xi yi = (res, h')"
  shows "keeps h h' \<and> deref h' fi = deref h fi \<and>
         ndarrays h' xo = ndarrays h xo \<and> ndarrays h' yo = ndarrays h yo \<and>
         map_option (ndarrays h') xi = map_option (ndarrays h) xi \<and>
         map_option (ndarrays h') yi = map_option (ndarrays h) yi \<and>
         (\<forall>r. res = Inr r \<longrightarrow> \<not> allocated h (DaRef r) \<and> allocated h' (DaRef r))"
proof -
  have k: "keeps h h'"
    using linint2_heap_keeps[of h K D fi xo yo icycx xmsg meta xi yi] assms(2) by simp
  have f: "\<not> allocated h (DaRef r) \<and> allocated h' (DaRef r)" if "res = Inr r" for r
  proof -
    have "fst (linint2_heap K D h fi xo yo icycx xmsg meta xi yi) = Inr r"
      using that assms(2) by simp
    from linint2_heap_fresh[OF this] assms(2) show ?thesis by (simp add: allocated_def)
  qed
  show ?thesis
    using k keeps_args(1-5)[OF k assms(1)] f by blast
qed

theorem linint2_leaves_arguments_witness:
  "args_allocated ex_heap (DaRef 0) 0 1 None None \<and>
   (\<exists>h'. linint2_heap ex_kernel ex_fill ex_heap (DaRef 0) 0 1 False None True None None = (Inr 1, h') \<and>
      keeps ex_heap h' \<and>
      deref h' (DaRef 0) = DataArray ex_fi \<and> ndarrays h' 0 = ex_xo \<and> ndarrays h' 1 = ex_yo \<and>
      \<not> allocated ex_heap (DaRef 1) \<and> allocated h' (DaRef 1))"
proof -
  let ?c = "linint2_heap ex_kernel ex_fill ex_heap (DaRef 0) 0 1 False None True None None"
  obtain r where r: "linint2 ex_kernel ex_fill (DataArray ex_fi) ex_xo ex_yo False None True None None = Inr r"
    by (rule ex_call)
  have "outcome ?c = Inr r"
    using linint2_heap_outcome[of 0 ex_heap 1 ex_kernel ex_fill "DaRef 0" False None True None None] r
    by (simp add: ex_heap_values) (simp add: ex_heap_def)
  then obtain p where p: "fst ?c = Inr p" by (auto simp: outcome_def split: sum.splits)
  from linint2_heap_fresh(1)[OF p] have "p = 1" by (simp add: ex_heap_def)
  with p have c: "?c = (Inr 1, snd ?c)" by (metis prod.collapse)
  note t = linint2_leaves_arguments[OF ex_heap_args c]
  have 1: "keeps ex_heap (snd ?c)" using t by (rule conjunct1)
  have 2: "deref (snd ?c) (DaRef 0) = DataArray ex_fi"
    using t[THEN conjunct2, THEN conjunct1] by (simp add: ex_heap_values)
  have 3: "ndarrays (snd ?c) 0 = ex_xo"
    using t[THEN conjunct2, THEN conjunct2, THEN conjunct1] by (simp add: ex_heap_values)
  have 4: "ndarrays (snd ?c) 1 = ex_yo"
    using t[THEN conjunct2, THEN conjunct2, THEN conjunct2, THEN conjunct1]
    by (simp add: ex_heap_values)
  have 5: "\<not> allocated ex_heap (DaRef 1) \<and> allocated (snd ?c) (DaRef 1)"
    using t[THEN conjunct2, THEN conjunct2, THEN conjunct2, THEN conjunct2, THEN conjunct2,
        THEN conjunct2] by simp
  show ?thesis
    by (intro conjI exI[of _ "snd ?c"]) (rule ex_heap_args c 1 2 3 4 5[THEN conjunct1] 5[THEN conjunct2])+
qed

end
